theory Spec2Isabelle
  imports Main "HOL-Library.Word" "HOL-Library.AList"
begin

unbundle bit_operations_syntax

section \<open>The entity/component/system runtime of \<^verbatim>\<open>ecs.h\<close>\<close>

text \<open>
  A shallow embedding of \<^verbatim>\<open>src/Assets/ecs.h\<close>: the classes \<^verbatim>\<open>System\<close> and
  \<^verbatim>\<open>EntityManager\<close>, with every member function as a function from the state before
  to the outcome and the state after.

  \<^item> \<^verbatim>\<open>EntityID\<close>, \<^verbatim>\<open>ComponentID\<close> and \<^verbatim>\<open>SystemID\<close> are \<^verbatim>\<open>std::uint32_t\<close>:
    32-bit words, so \<^verbatim>\<open>m_nextEntityID++\<close> and the two type counters wrap.
  \<^item> \<^verbatim>\<open>ComponentMask\<close> is \<^verbatim>\<open>std::bitset<64>\<close>: a 64-bit word. Its members
    \<^verbatim>\<open>set(pos)\<close>, \<^verbatim>\<open>reset(pos)\<close> and \<^verbatim>\<open>test(pos)\<close> throw \<^verbatim>\<open>std::out_of_range\<close>
    when \<^verbatim>\<open>pos\<close> is not below 64.
  \<^item> A C++ type argument \<^verbatim>\<open>T\<close> is its name. The function-local statics
    \<^verbatim>\<open>typeID\<close> of \<^verbatim>\<open>GetComponentTypeID<T>\<close> and \<^verbatim>\<open>GetSystemTypeID<T>\<close> are two maps
    from names to identifiers, beside the two static counters.
  \<^item> A component instance is the address \<^verbatim>\<open>std::make_shared\<close> returned; addresses
    are handed out by a counter.
  \<^item> Every call of a virtual hook (\<^verbatim>\<open>Initialize\<close>, \<^verbatim>\<open>Finalize\<close>, \<^verbatim>\<open>Update\<close>,
    \<^verbatim>\<open>Render\<close>, \<^verbatim>\<open>OnEntityAdded\<close>, \<^verbatim>\<open>OnEntityRemoved\<close>) is recorded, in call order, in
    a trace. The hooks are those of the base classes: they do not call back into the
    manager.
  \<^item> An exception leaves the state as it was when it was thrown, so every operation
    returns the state after together with its outcome.
  \<^item> The class \<^verbatim>\<open>Entity\<close> is a handle: its member functions pass \<^verbatim>\<open>m_id\<close> to the
    member function of the manager with the same name, which is what is modelled.
    Constructors and destructors of components are no hooks and leave no trace.
\<close>

type_synonym EntityID = "32 word"
type_synonym ComponentID = "32 word"
type_synonym SystemID = "32 word"
type_synonym ComponentMask = "64 word"

text \<open>The name of a C++ type, the address of a component, the bit pattern of a \<^verbatim>\<open>float\<close>
  (a \<^verbatim>\<open>deltaTime\<close> is only passed on, never computed with).\<close>

type_synonym typename = string
type_synonym component_ptr = nat
type_synonym float = "32 word"

definition MAX_COMPONENTS :: nat where
  "MAX_COMPONENTS = 64"

definition MAX_ENTITIES :: nat where
  "MAX_ENTITIES = 10000"

text \<open>
  The failures of the code. \<open>bitset_out_of_range\<close> and \<open>map_out_of_range\<close> are both
  \<^verbatim>\<open>std::out_of_range\<close>, thrown by \<^verbatim>\<open>std::bitset\<close> for a position that is not below 64
  and by \<^verbatim>\<open>unordered_map::at\<close> for a missing key. \<open>null_pointer_call\<close> is a virtual
  call through a null \<^verbatim>\<open>shared_ptr\<close>.
\<close>

datatype error = bitset_out_of_range | map_out_of_range | null_pointer_call

datatype event =
    ComponentInitialize component_ptr
  | ComponentFinalize component_ptr
  | SystemInitialize SystemID
  | SystemUpdate SystemID float
  | SystemRender SystemID
  | OnEntityAdded SystemID EntityID
  | OnEntityRemoved SystemID EntityID

subsection \<open>\<^verbatim>\<open>std::bitset<MAX_COMPONENTS>\<close>\<close>

definition bitset_set :: "ComponentMask \<Rightarrow> ComponentID \<Rightarrow> error + ComponentMask" where
  "bitset_set m pos =
     (if unat pos < MAX_COMPONENTS then Inr (set_bit (unat pos) m) else Inl bitset_out_of_range)"

definition bitset_reset :: "ComponentMask \<Rightarrow> ComponentID \<Rightarrow> error + ComponentMask" where
  "bitset_reset m pos =
     (if unat pos < MAX_COMPONENTS then Inr (unset_bit (unat pos) m) else Inl bitset_out_of_range)"

definition bitset_test :: "ComponentMask \<Rightarrow> ComponentID \<Rightarrow> error + bool" where
  "bitset_test m pos =
     (if unat pos < MAX_COMPONENTS then Inr (bit m (unat pos)) else Inl bitset_out_of_range)"

subsection \<open>\<^verbatim>\<open>std::unordered_map\<close>\<close>

text \<open>
  The order in which a \<^verbatim>\<open>std::unordered_map\<close> is iterated is left open by the
  language, and the code iterates \<^verbatim>\<open>m_systems\<close> and \<^verbatim>\<open>m_entityMasks\<close>. These two
  tables are association lists in iteration order. Where the table puts a fresh key is
  the library's choice: a parameter \<open>slot\<close> of every operation that can insert one,
  which gives the index of the new entry from the key and the keys present.
  \<open>slot_front\<close> links a new entry before all others, \<open>slot_back\<close> after them.
  The tables that are never iterated (\<^verbatim>\<open>m_entityComponents\<close> and its inner maps) are
  maps.
\<close>

type_synonym slot = "32 word \<Rightarrow> 32 word list \<Rightarrow> nat"

definition slot_front :: slot where
  "slot_front k ks = 0"

definition slot_back :: slot where
  "slot_back k ks = length ks"

definition insert_at :: "nat \<Rightarrow> 'a \<Rightarrow> 'a list \<Rightarrow> 'a list" where
  "insert_at n x xs = take n xs @ x # drop n xs"

text \<open>\<^verbatim>\<open>operator[]\<close>: a missing key is inserted with the default value \<open>d\<close>.\<close>

definition um_index :: "slot \<Rightarrow> 'v \<Rightarrow> 32 word \<Rightarrow> (32 word \<times> 'v) list \<Rightarrow> (32 word \<times> 'v) list" where
  "um_index slot d k t =
     (case map_of t k of
        None \<Rightarrow> insert_at (slot k (map fst t)) (k, d) t
      | Some v \<Rightarrow> t)"

text \<open>The value \<^verbatim>\<open>operator[]\<close> refers to, and \<^verbatim>\<open>operator[]\<close> followed by an
  assignment of the whole value.\<close>

definition um_get :: "'v \<Rightarrow> 32 word \<Rightarrow> (32 word \<times> 'v) list \<Rightarrow> 'v" where
  "um_get d k t = (case map_of t k of None \<Rightarrow> d | Some v \<Rightarrow> v)"

definition um_assign :: "slot \<Rightarrow> 32 word \<Rightarrow> 'v \<Rightarrow> (32 word \<times> 'v) list \<Rightarrow> (32 word \<times> 'v) list" where
  "um_assign slot k v t =
     (case map_of t k of
        None \<Rightarrow> insert_at (slot k (map fst t)) (k, v) t
      | Some old \<Rightarrow> AList.update k v t)"

text \<open>\<^verbatim>\<open>at\<close>: a missing key throws.\<close>

definition um_at :: "('k \<times> 'v) list \<Rightarrow> 'k \<Rightarrow> error + 'v" where
  "um_at t k = (case map_of t k of None \<Rightarrow> Inl map_out_of_range | Some v \<Rightarrow> Inr v)"

definition map_at :: "('k \<rightharpoonup> 'v) \<Rightarrow> 'k \<Rightarrow> error + 'v" where
  "map_at m k = (case m k of None \<Rightarrow> Inl map_out_of_range | Some v \<Rightarrow> Inr v)"

subsection \<open>\<^verbatim>\<open>class System\<close>\<close>

record System =
  m_componentMask :: ComponentMask
  m_entities :: "EntityID set"
  m_id :: SystemID
  m_active :: bool

text \<open>\<^verbatim>\<open>System::System(EntityManager*)\<close>\<close>

definition System_ctor :: System where
  "System_ctor = \<lparr>m_componentMask = 0, m_entities = {}, m_id = 0, m_active = True\<rparr>"

definition SetActive :: "bool \<Rightarrow> System \<Rightarrow> System" where
  "SetActive active sys = sys\<lparr>m_active := active\<rparr>"

text \<open>\<^verbatim>\<open>System::AddEntity\<close>: the hook is called whether or not the insertion took place.\<close>

definition AddEntity :: "EntityID \<Rightarrow> System \<Rightarrow> System \<times> event list" where
  "AddEntity entity sys =
     (sys\<lparr>m_entities := insert entity (m_entities sys)\<rparr>, [OnEntityAdded (m_id sys) entity])"

text \<open>\<^verbatim>\<open>System::RemoveEntity\<close>: the hook is called when \<^verbatim>\<open>erase\<close> removed an element.\<close>

definition RemoveEntity :: "EntityID \<Rightarrow> System \<Rightarrow> System \<times> event list" where
  "RemoveEntity entity sys =
     (if entity \<in> m_entities sys
      then (sys\<lparr>m_entities := m_entities sys - {entity}\<rparr>, [OnEntityRemoved (m_id sys) entity])
      else (sys, []))"

subsection \<open>\<^verbatim>\<open>class EntityManager\<close>\<close>

record EntityManager =
  s_componentTypeCounter :: ComponentID
  componentTypeID :: "typename \<rightharpoonup> ComponentID"
  s_systemTypeCounter :: SystemID
  systemTypeID :: "typename \<rightharpoonup> SystemID"
  m_entityMasks :: "(EntityID \<times> ComponentMask) list"
  m_entityComponents :: "EntityID \<rightharpoonup> (ComponentID \<rightharpoonup> component_ptr)"
  m_availableEntityIDs :: "EntityID list"
  m_nextEntityID :: EntityID
  m_systems :: "(SystemID \<times> System) list"
  m_entitiesToDestroy :: "EntityID list"
  heap_next :: component_ptr
  trace :: "event list"

text \<open>
  The first four fields are the statics: the two counters of the class and the
  function-local \<^verbatim>\<open>typeID\<close> of each instance of the two templates. The \<^verbatim>\<open>m_\<close> fields
  are the members. \<^verbatim>\<open>m_availableEntityIDs\<close> is the queue, front first.
  \<^verbatim>\<open>m_entitiesToDestroy\<close> is the \<^verbatim>\<open>std::set\<close> as the ascending list of its elements, the
  order in which it is iterated. \<open>heap_next\<close> is the next address \<^verbatim>\<open>make_shared\<close> returns
  and \<open>trace\<close> the hook calls so far. \<open>EntityManager_ctor\<close> is a fresh process: the
  initial statics and the constructor.
\<close>

definition EntityManager_ctor :: EntityManager where
  "EntityManager_ctor =
     \<lparr>s_componentTypeCounter = 0, componentTypeID = Map.empty,
      s_systemTypeCounter = 0, systemTypeID = Map.empty,
      m_entityMasks = [], m_entityComponents = Map.empty,
      m_availableEntityIDs = [], m_nextEntityID = 0,
      m_systems = [], m_entitiesToDestroy = [],
      heap_next = 0, trace = []\<rparr>"

definition GetComponentTypeID :: "typename \<Rightarrow> EntityManager \<Rightarrow> ComponentID \<times> EntityManager" where
  "GetComponentTypeID T s =
     (case componentTypeID s T of
        Some typeID \<Rightarrow> (typeID, s)
      | None \<Rightarrow>
          (s_componentTypeCounter s,
           s\<lparr>componentTypeID := (componentTypeID s)(T \<mapsto> s_componentTypeCounter s),
             s_componentTypeCounter := s_componentTypeCounter s + 1\<rparr>))"

definition GetSystemTypeID :: "typename \<Rightarrow> EntityManager \<Rightarrow> SystemID \<times> EntityManager" where
  "GetSystemTypeID T s =
     (case systemTypeID s T of
        Some typeID \<Rightarrow> (typeID, s)
      | None \<Rightarrow>
          (s_systemTypeCounter s,
           s\<lparr>systemTypeID := (systemTypeID s)(T \<mapsto> s_systemTypeCounter s),
             s_systemTypeCounter := s_systemTypeCounter s + 1\<rparr>))"

text \<open>The loop \<^verbatim>\<open>for (auto& systemPair : m_systems)\<close> with a body that changes the system
  it visits and calls hooks: the table after, and the hook calls in order.\<close>

definition for_systems ::
  "(System \<Rightarrow> System \<times> event list) \<Rightarrow> (SystemID \<times> System) list \<Rightarrow>
   (SystemID \<times> System) list \<times> event list" where
  "for_systems body t =
     (map (\<lambda>systemPair. (fst systemPair, fst (body (snd systemPair)))) t,
      concat (map (\<lambda>systemPair. snd (body (snd systemPair))) t))"

definition CreateEntity :: "slot \<Rightarrow> EntityManager \<Rightarrow> EntityID \<times> EntityManager" where
  "CreateEntity slot s =
     (let (eid, s1) =
            (case m_availableEntityIDs s of
               front # rest \<Rightarrow> (front, s\<lparr>m_availableEntityIDs := rest\<rparr>)
             | [] \<Rightarrow> (m_nextEntityID s, s\<lparr>m_nextEntityID := m_nextEntityID s + 1\<rparr>))
      in (eid,
          s1\<lparr>m_entityMasks := um_assign slot eid 0 (m_entityMasks s1),
             m_entityComponents := (m_entityComponents s1)(eid \<mapsto> Map.empty)\<rparr>))"

definition DestroyEntity :: "EntityID \<Rightarrow> EntityManager \<Rightarrow> EntityManager" where
  "DestroyEntity entity s =
     s\<lparr>m_entitiesToDestroy := insort_insert entity (m_entitiesToDestroy s)\<rparr>"

text \<open>The body of the loop of \<^verbatim>\<open>ProcessDestructions\<close>, for one pending identifier.\<close>

definition destroy_pending :: "EntityID \<Rightarrow> EntityManager \<Rightarrow> EntityManager" where
  "destroy_pending entity s =
     (let (systems, evs) = for_systems (RemoveEntity entity) (m_systems s)
      in s\<lparr>m_systems := systems,
           trace := trace s @ evs,
           m_entityComponents := (m_entityComponents s)(entity := None),
           m_entityMasks := AList.delete entity (m_entityMasks s),
           m_availableEntityIDs := m_availableEntityIDs s @ [entity]\<rparr>)"

definition ProcessDestructions :: "EntityManager \<Rightarrow> EntityManager" where
  "ProcessDestructions s =
     (fold destroy_pending (m_entitiesToDestroy s) s)\<lparr>m_entitiesToDestroy := []\<rparr>"

text \<open>
  \<^verbatim>\<open>AddComponent<T>\<close>. The component is stored before the mask is touched, so the
  exception of \<^verbatim>\<open>bitset::set\<close> leaves it stored. The result is the address of the
  new component.
\<close>

definition AddComponent ::
  "slot \<Rightarrow> typename \<Rightarrow> EntityID \<Rightarrow> EntityManager \<Rightarrow> (error + component_ptr) \<times> EntityManager" where
  "AddComponent slot T entity s =
     (let (componentID, s1) = GetComponentTypeID T s;
          component = heap_next s1;
          components = (case m_entityComponents s1 entity of None \<Rightarrow> Map.empty | Some cs \<Rightarrow> cs);
          s2 = s1\<lparr>heap_next := Suc component,
                 m_entityComponents :=
                   (m_entityComponents s1)(entity \<mapsto> components(componentID \<mapsto> component))\<rparr>;
          masks = um_index slot 0 entity (m_entityMasks s2);
          s3 = s2\<lparr>m_entityMasks := masks\<rparr>
      in case bitset_set (um_get 0 entity masks) componentID of
           Inl e \<Rightarrow> (Inl e, s3)
         | Inr entityMask \<Rightarrow>
             (let s4 = s3\<lparr>m_entityMasks := AList.update entity entityMask masks,
                         trace := trace s3 @ [ComponentInitialize component]\<rparr>;
                  (systems, evs) =
                    for_systems
                      (\<lambda>sys. if (entityMask AND m_componentMask sys) = m_componentMask sys
                             then AddEntity entity sys else (sys, []))
                      (m_systems s4)
              in (Inr component, s4\<lparr>m_systems := systems, trace := trace s4 @ evs\<rparr>)))"

text \<open>
  \<^verbatim>\<open>RemoveComponent<T>\<close>. When the mask has the bit and the component table has no
  entry, \<^verbatim>\<open>operator[]\<close> yields a null pointer and the call of \<^verbatim>\<open>Finalize\<close> through it
  is undefined: the model stops there with \<open>null_pointer_call\<close>.
\<close>

definition RemoveComponent ::
  "slot \<Rightarrow> typename \<Rightarrow> EntityID \<Rightarrow> EntityManager \<Rightarrow> (error + unit) \<times> EntityManager" where
  "RemoveComponent slot T entity s =
     (let (componentID, s1) = GetComponentTypeID T s;
          masks = um_index slot 0 entity (m_entityMasks s1);
          s2 = s1\<lparr>m_entityMasks := masks\<rparr>;
          entityMask = um_get 0 entity masks
      in case bitset_test entityMask componentID of
           Inl e \<Rightarrow> (Inl e, s2)
         | Inr present \<Rightarrow>
             if \<not> present then (Inr (), s2)
             else
               (let components =
                      (case m_entityComponents s2 entity of None \<Rightarrow> Map.empty | Some cs \<Rightarrow> cs)
                in case components componentID of
                     None \<Rightarrow> (Inl null_pointer_call, s2)
                   | Some component \<Rightarrow>
                       (let s3 = s2\<lparr>trace := trace s2 @ [ComponentFinalize component],
                                   m_entityComponents :=
                                     (m_entityComponents s2)
                                       (entity \<mapsto> components(componentID := None))\<rparr>
                        in case bitset_reset entityMask componentID of
                             Inl e \<Rightarrow> (Inl e, s3)
                           | Inr cleared \<Rightarrow>
                               (let s4 = s3\<lparr>m_entityMasks := AList.update entity cleared masks\<rparr>;
                                    (systems, evs) =
                                      for_systems
                                        (\<lambda>sys. if (cleared AND m_componentMask sys) \<noteq> m_componentMask sys
                                               then RemoveEntity entity sys else (sys, []))
                                        (m_systems s4)
                                in (Inr (), s4\<lparr>m_systems := systems, trace := trace s4 @ evs\<rparr>)))))"

definition HasComponent ::
  "typename \<Rightarrow> EntityID \<Rightarrow> EntityManager \<Rightarrow> (error + bool) \<times> EntityManager" where
  "HasComponent T entity s =
     (let (componentID, s1) = GetComponentTypeID T s
      in (case um_at (m_entityMasks s1) entity of
            Inl e \<Rightarrow> Inl e
          | Inr entityMask \<Rightarrow> bitset_test entityMask componentID,
          s1))"

text \<open>\<^verbatim>\<open>GetComponent<T>\<close>: \<open>Inr None\<close> is the null pointer.\<close>

definition GetComponent ::
  "typename \<Rightarrow> EntityID \<Rightarrow> EntityManager \<Rightarrow> (error + component_ptr option) \<times> EntityManager" where
  "GetComponent T entity s =
     (let (componentID, s1) = GetComponentTypeID T s
      in (case um_at (m_entityMasks s1) entity of
            Inl e \<Rightarrow> Inl e
          | Inr entityMask \<Rightarrow>
              (case bitset_test entityMask componentID of
                 Inl e \<Rightarrow> Inl e
               | Inr present \<Rightarrow>
                   if \<not> present then Inr None
                   else
                     (case map_at (m_entityComponents s1) entity of
                        Inl e \<Rightarrow> Inl e
                      | Inr components \<Rightarrow>
                          (case map_at components componentID of
                             Inl e \<Rightarrow> Inl e
                           | Inr component \<Rightarrow> Inr (Some component)))),
          s1))"

definition GetComponentMask :: "EntityID \<Rightarrow> EntityManager \<Rightarrow> error + ComponentMask" where
  "GetComponentMask entity s = um_at (m_entityMasks s) entity"

text \<open>
  \<^verbatim>\<open>System::RequireComponent<T>\<close>, and the constructor of a system class, which (as
  \<^verbatim>\<open>TestSystem\<close>, \<^verbatim>\<open>HeroSystem\<close> and \<^verbatim>\<open>AbilitySystem\<close> do) calls it for each
  component type the system requires: a system class is its name and that list.
\<close>

definition RequireComponent ::
  "typename \<Rightarrow> System \<Rightarrow> EntityManager \<Rightarrow> (error + System) \<times> EntityManager" where
  "RequireComponent T sys s =
     (let (componentID, s1) = GetComponentTypeID T s
      in (case bitset_set (m_componentMask sys) componentID of
            Inl e \<Rightarrow> Inl e
          | Inr required \<Rightarrow> Inr (sys\<lparr>m_componentMask := required\<rparr>),
          s1))"

fun construct_system ::
  "typename list \<Rightarrow> System \<Rightarrow> EntityManager \<Rightarrow> (error + System) \<times> EntityManager" where
  "construct_system [] sys s = (Inr sys, s)"
| "construct_system (T # Ts) sys s =
     (case RequireComponent T sys s of
        (Inl e, s1) \<Rightarrow> (Inl e, s1)
      | (Inr sys1, s1) \<Rightarrow> construct_system Ts sys1 s1)"

text \<open>The loop of \<^verbatim>\<open>RegisterSystem\<close> over \<^verbatim>\<open>m_entityMasks\<close>.\<close>

fun add_matching :: "(EntityID \<times> ComponentMask) list \<Rightarrow> System \<Rightarrow> System \<times> event list" where
  "add_matching [] system = (system, [])"
| "add_matching ((entity, entityMask) # rest) system =
     (if (entityMask AND m_componentMask system) = m_componentMask system
      then (let (system1, ev) = AddEntity entity system;
                (system2, evs) = add_matching rest system1
            in (system2, ev @ evs))
      else add_matching rest system)"

text \<open>\<^verbatim>\<open>RegisterSystem<T>\<close>, for the system class \<open>T\<close> whose constructor requires the
  component types \<open>required\<close>. The result is the key under which the system is stored.\<close>

definition RegisterSystem ::
  "slot \<Rightarrow> typename \<Rightarrow> typename list \<Rightarrow> EntityManager \<Rightarrow> (error + SystemID) \<times> EntityManager" where
  "RegisterSystem slot T required s =
     (let (systemID, s1) = GetSystemTypeID T s
      in case construct_system required System_ctor s1 of
           (Inl e, s2) \<Rightarrow> (Inl e, s2)
         | (Inr constructed, s2) \<Rightarrow>
             (let system = constructed\<lparr>m_id := systemID\<rparr>;
                  s3 = s2\<lparr>m_systems := um_assign slot systemID system (m_systems s2),
                         trace := trace s2 @ [SystemInitialize systemID]\<rparr>;
                  (system', evs) = add_matching (m_entityMasks s3) system
              in (Inr systemID,
                  s3\<lparr>m_systems := AList.update systemID system' (m_systems s3),
                     trace := trace s3 @ evs\<rparr>)))"

definition GetSystem :: "typename \<Rightarrow> EntityManager \<Rightarrow> System option \<times> EntityManager" where
  "GetSystem T s = (let (systemID, s1) = GetSystemTypeID T s in (map_of (m_systems s1) systemID, s1))"

definition UpdateSystems :: "float \<Rightarrow> EntityManager \<Rightarrow> EntityManager" where
  "UpdateSystems deltaTime s =
     s\<lparr>trace := trace s @
          concat (map (\<lambda>systemPair.
                         if m_active (snd systemPair)
                         then [SystemUpdate (m_id (snd systemPair)) deltaTime] else [])
                      (m_systems s))\<rparr>"

definition RenderSystems :: "EntityManager \<Rightarrow> EntityManager" where
  "RenderSystems s =
     s\<lparr>trace := trace s @
          concat (map (\<lambda>systemPair.
                         if m_active (snd systemPair)
                         then [SystemRender (m_id (snd systemPair))] else [])
                      (m_systems s))\<rparr>"

subsection \<open>Live entities, runs and scenarios\<close>

text \<open>An entity is live when \<^verbatim>\<open>m_entityMasks\<close> has its identifier: \<^verbatim>\<open>GetComponentMask\<close>
  answers for it.\<close>

definition live :: "EntityManager \<Rightarrow> EntityID set" where
  "live s = fst ` set (m_entityMasks s)"

text \<open>The hook calls a removal of \<open>entity\<close> owes: one \<^verbatim>\<open>OnEntityRemoved\<close> for each system
  of the table, in table order, whose subscriber set holds the entity.\<close>

definition removed_hooks :: "EntityID \<Rightarrow> (SystemID \<times> System) list \<Rightarrow> event list" where
  "removed_hooks entity t =
     map (\<lambda>systemPair. OnEntityRemoved (m_id (snd systemPair)) entity)
       (filter (\<lambda>systemPair. entity \<in> m_entities (snd systemPair)) t)"

text \<open>A caller that only creates entities, asks for their destruction and flushes.\<close>

datatype command = Create | Destroy EntityID | Flush

fun step :: "slot \<Rightarrow> command \<Rightarrow> EntityManager \<Rightarrow> EntityManager" where
  "step slot Create s = snd (CreateEntity slot s)"
| "step slot (Destroy entity) s = DestroyEntity entity s"
| "step slot Flush s = ProcessDestructions s"

text \<open>Along a run: every \<open>Destroy\<close> names an entity live at that moment; every \<open>Create\<close>
  returns an identifier that is not live at that moment.\<close>

fun destroys_live :: "slot \<Rightarrow> command list \<Rightarrow> EntityManager \<Rightarrow> bool" where
  "destroys_live slot [] s = True"
| "destroys_live slot (Destroy entity # cs) s =
     (entity \<in> live s \<and> destroys_live slot cs (step slot (Destroy entity) s))"
| "destroys_live slot (c # cs) s = destroys_live slot cs (step slot c s)"

fun creates_unused :: "slot \<Rightarrow> command list \<Rightarrow> EntityManager \<Rightarrow> bool" where
  "creates_unused slot [] s = True"
| "creates_unused slot (Create # cs) s =
     (fst (CreateEntity slot s) \<notin> live s \<and> creates_unused slot cs (step slot Create s))"
| "creates_unused slot (c # cs) s = creates_unused slot cs (step slot c s)"

text \<open>The invariant of the identifier pool: the pool and the pending set have no
  duplicates, no pooled identifier is live, every pending identifier is live, and every
  identifier live or pooled was issued by the counter.\<close>

definition ids_inv :: "EntityManager \<Rightarrow> bool" where
  "ids_inv s =
     (distinct (m_availableEntityIDs s) \<and> distinct (m_entitiesToDestroy s)
      \<and> set (m_availableEntityIDs s) \<inter> live s = {}
      \<and> set (m_entitiesToDestroy s) \<subseteq> live s
      \<and> (\<forall>e \<in> live s \<union> set (m_availableEntityIDs s). unat e < unat (m_nextEntityID s)))"

text \<open>
  A world with two systems, \<^verbatim>\<open>HeroSystem\<close> requiring \<^verbatim>\<open>HeroComponent\<close> and
  \<^verbatim>\<open>LoadoutSystem\<close> requiring \<^verbatim>\<open>HeroComponent\<close> and \<^verbatim>\<open>AbilitySlot\<close>, and one entity
  with a \<^verbatim>\<open>HeroComponent\<close>.
\<close>

definition hero_world :: EntityManager where
  "hero_world =
     snd (AddComponent slot_front ''HeroComponent'' 0
       (snd (CreateEntity slot_front
         (snd (RegisterSystem slot_front ''LoadoutSystem'' [''HeroComponent'', ''AbilitySlot'']
           (snd (RegisterSystem slot_front ''HeroSystem'' [''HeroComponent'']
             EntityManager_ctor)))))))"

text \<open>Two systems without requirements, \<^verbatim>\<open>SystemA\<close> registered before
  \<^verbatim>\<open>SystemB\<close>, in a table that links a new entry in front.\<close>

definition two_systems :: EntityManager where
  "two_systems =
     snd (RegisterSystem slot_front ''SystemB'' []
       (snd (RegisterSystem slot_front ''SystemA'' [] EntityManager_ctor)))"




text \<open>A world with one system that requires no component, \<^verbatim>\<open>TickSystem\<close>.\<close>

definition tick_world :: EntityManager where
  "tick_world = snd (RegisterSystem slot_front ''TickSystem'' [] EntityManager_ctor)"

text \<open>The subscriber sets agree with the masks: for every system of the table, an
  entity is in the subscriber set exactly when it is live and its mask is a superset of
  the mask the system requires.\<close>

definition subscriptions_consistent :: "EntityManager \<Rightarrow> bool" where
  "subscriptions_consistent s =
     (\<forall>systemPair \<in> set (m_systems s). \<forall>e.
        e \<in> m_entities (snd systemPair) \<longleftrightarrow>
        (\<exists>m. map_of (m_entityMasks s) e = Some m
           \<and> (m AND m_componentMask (snd systemPair)) = m_componentMask (snd systemPair)))"

section \<open>Properties\<close>

subsection \<open>The tables\<close>

lemma map_of_insert_at:
  "map_of t k = None \<Longrightarrow> map_of (insert_at n (k, d) t) = (map_of t)(k \<mapsto> d)"
proof (induction t arbitrary: n)
  case Nil
  then show ?case by (simp add: insert_at_def)
next
  case (Cons p t)
  show ?case
  proof (cases n)
    case 0
    then show ?thesis by (cases p) (auto simp: insert_at_def fun_eq_iff)
  next
    case (Suc m)
    from Cons.prems have "map_of t k = None" and "fst p \<noteq> k"
      by (cases p; auto split: if_splits)+
    with Cons.IH [of m] Suc show ?thesis
      by (cases p) (auto simp: insert_at_def fun_eq_iff)
  qed
qed

lemma map_of_um_index:
  "map_of (um_index slot d k t) =
     (case map_of t k of None \<Rightarrow> (map_of t)(k \<mapsto> d) | Some v \<Rightarrow> map_of t)"
  by (simp add: um_index_def map_of_insert_at split: option.splits)

lemma map_of_um_assign: "map_of (um_assign slot k v t) = (map_of t)(k \<mapsto> v)"
  by (simp add: um_assign_def map_of_insert_at update_conv' split: option.splits)

lemma keys_um_assign: "fst ` set (um_assign slot k v t) = insert k (fst ` set t)"
proof -
  have "dom (map_of (um_assign slot k v t)) = insert k (dom (map_of t))"
    by (simp add: map_of_um_assign)
  then show ?thesis by (simp add: dom_map_of_conv_image_fst)
qed

lemma um_index_present: "map_of t k = Some v \<Longrightarrow> um_index slot d k t = t"
  by (simp add: um_index_def)

lemma um_get_present: "map_of t k = Some v \<Longrightarrow> um_get d k t = v"
  by (simp add: um_get_def)

lemma um_get_um_index: "um_get d k (um_index slot d k t) = um_get d k t"
  by (simp add: um_get_def map_of_um_index split: option.splits)

subsection \<open>Type identifiers\<close>

lemma GetComponentTypeID_known:
  "componentTypeID s T = Some c \<Longrightarrow> GetComponentTypeID T s = (c, s)"
  by (simp add: GetComponentTypeID_def)

lemma GetComponentTypeID_registers:
  "componentTypeID (snd (GetComponentTypeID T s)) T = Some (fst (GetComponentTypeID T s))"
  by (simp add: GetComponentTypeID_def split: option.splits)

lemma GetComponentTypeID_frame:
  assumes "GetComponentTypeID T s = (cid, s1)"
  shows "m_entityMasks s1 = m_entityMasks s" "m_entityComponents s1 = m_entityComponents s"
    "m_systems s1 = m_systems s" "trace s1 = trace s" "heap_next s1 = heap_next s"
    "m_availableEntityIDs s1 = m_availableEntityIDs s" "m_nextEntityID s1 = m_nextEntityID s"
    "m_entitiesToDestroy s1 = m_entitiesToDestroy s"
  using assms by (auto simp: GetComponentTypeID_def split: option.splits)

subsection \<open>The operations, case by case\<close>

lemma HasComponent_known:
  "componentTypeID s T = Some cid \<Longrightarrow>
   HasComponent T E s =
     (case um_at (m_entityMasks s) E of Inl e \<Rightarrow> Inl e | Inr m \<Rightarrow> bitset_test m cid, s)"
  by (simp add: HasComponent_def GetComponentTypeID_known)

lemma GetComponent_known:
  "componentTypeID s T = Some cid \<Longrightarrow>
   GetComponent T E s =
     (case um_at (m_entityMasks s) E of
        Inl e \<Rightarrow> Inl e
      | Inr m \<Rightarrow>
          (case bitset_test m cid of
             Inl e \<Rightarrow> Inl e
           | Inr present \<Rightarrow>
               if \<not> present then Inr None
               else (case map_at (m_entityComponents s) E of
                       Inl e \<Rightarrow> Inl e
                     | Inr components \<Rightarrow>
                         (case map_at components cid of
                            Inl e \<Rightarrow> Inl e
                          | Inr component \<Rightarrow> Inr (Some component)))), s)"
  by (simp add: GetComponent_def GetComponentTypeID_known)

lemma AddComponent_in_capacity:
  assumes "GetComponentTypeID T s = (cid, s1)" and "unat cid < MAX_COMPONENTS"
  shows "AddComponent slot T E s =
     (let masks = um_index slot 0 E (m_entityMasks s1);
          m = set_bit (unat cid) (um_get 0 E masks);
          body = (\<lambda>sys. if (m AND m_componentMask sys) = m_componentMask sys
                        then AddEntity E sys else (sys, []))
      in (Inr (heap_next s1),
          s1\<lparr>heap_next := Suc (heap_next s1),
             m_entityComponents := (m_entityComponents s1)
               (E \<mapsto> (case m_entityComponents s1 E of None \<Rightarrow> Map.empty | Some cs \<Rightarrow> cs)
                        (cid \<mapsto> heap_next s1)),
             m_entityMasks := AList.update E m masks,
             m_systems := fst (for_systems body (m_systems s1)),
             trace := trace s1 @
               ComponentInitialize (heap_next s1) # snd (for_systems body (m_systems s1))\<rparr>))"
  using assms by (simp add: AddComponent_def Let_def bitset_set_def split_beta)

lemma RemoveComponent_absent:
  assumes "GetComponentTypeID T s = (cid, s1)" and "unat cid < MAX_COMPONENTS"
    and "\<not> bit (um_get 0 E (m_entityMasks s1)) (unat cid)"
  shows "RemoveComponent slot T E s =
     (Inr (), s1\<lparr>m_entityMasks := um_index slot 0 E (m_entityMasks s1)\<rparr>)"
  using assms by (simp add: RemoveComponent_def Let_def bitset_test_def um_get_um_index)

lemma RemoveComponent_present:
  assumes "GetComponentTypeID T s = (cid, s1)" and "unat cid < MAX_COMPONENTS"
    and "map_of (m_entityMasks s1) E = Some m" and "bit m (unat cid)"
    and "m_entityComponents s1 E = Some cs" and "cs cid = Some c"
  shows "RemoveComponent slot T E s =
     (let cleared = unset_bit (unat cid) m;
          body = (\<lambda>sys. if (cleared AND m_componentMask sys) \<noteq> m_componentMask sys
                        then RemoveEntity E sys else (sys, []))
      in (Inr (),
          s1\<lparr>m_entityComponents := (m_entityComponents s1)(E \<mapsto> cs(cid := None)),
             m_entityMasks := AList.update E cleared (m_entityMasks s1),
             m_systems := fst (for_systems body (m_systems s1)),
             trace := trace s1 @ ComponentFinalize c # snd (for_systems body (m_systems s1))\<rparr>))"
  using assms
  by (simp add: RemoveComponent_def Let_def bitset_test_def bitset_reset_def split_beta
      um_index_present um_get_present)

lemma RemoveEntity_fst: "fst (RemoveEntity e sys) = sys\<lparr>m_entities := m_entities sys - {e}\<rparr>"
  by (simp add: RemoveEntity_def)

lemma RemoveEntity_snd:
  "snd (RemoveEntity e sys) = (if e \<in> m_entities sys then [OnEntityRemoved (m_id sys) e] else [])"
  by (simp add: RemoveEntity_def)

lemma for_systems_RemoveEntity_snd:
  "snd (for_systems (RemoveEntity e) t) = removed_hooks e t"
  by (induction t) (simp_all add: for_systems_def removed_hooks_def RemoveEntity_snd)

lemma for_systems_RemoveEntity_fst:
  "fst (for_systems (RemoveEntity e) t) =
     map (\<lambda>p. (fst p, (snd p)\<lparr>m_entities := m_entities (snd p) - {e}\<rparr>)) t"
  by (simp add: for_systems_def RemoveEntity_fst)

subsection \<open>The flush\<close>

lemma destroy_pending_fields:
  "m_systems (destroy_pending e s) =
     map (\<lambda>p. (fst p, (snd p)\<lparr>m_entities := m_entities (snd p) - {e}\<rparr>)) (m_systems s)"
  "trace (destroy_pending e s) = trace s @ removed_hooks e (m_systems s)"
  "m_entityMasks (destroy_pending e s) = AList.delete e (m_entityMasks s)"
  "m_entityComponents (destroy_pending e s) = (m_entityComponents s)(e := None)"
  "m_availableEntityIDs (destroy_pending e s) = m_availableEntityIDs s @ [e]"
  "m_nextEntityID (destroy_pending e s) = m_nextEntityID s"
  "m_entitiesToDestroy (destroy_pending e s) = m_entitiesToDestroy s"
  by (simp_all add: destroy_pending_def split_beta for_systems_RemoveEntity_snd
      for_systems_RemoveEntity_fst)

lemma removed_hooks_other:
  "e' \<noteq> e \<Longrightarrow>
   removed_hooks e' (map (\<lambda>p. (fst p, (snd p)\<lparr>m_entities := m_entities (snd p) - {e}\<rparr>)) t)
     = removed_hooks e' t"
  by (induction t) (simp_all add: removed_hooks_def)

lemma fold_destroy_pending_trace:
  "distinct es \<Longrightarrow>
   trace (fold destroy_pending es s) =
     trace s @ concat (map (\<lambda>e. removed_hooks e (m_systems s)) es)"
proof (induction es arbitrary: s)
  case Nil
  then show ?case by simp
next
  case (Cons e es)
  then have "e' \<noteq> e" if "e' \<in> set es" for e'
    using that by auto
  then have "\<And>e'. e' \<in> set es \<Longrightarrow>
      removed_hooks e' (m_systems (destroy_pending e s)) = removed_hooks e' (m_systems s)"
    by (simp add: destroy_pending_fields removed_hooks_other)
  then have "map (\<lambda>e'. removed_hooks e' (m_systems (destroy_pending e s))) es
           = map (\<lambda>e'. removed_hooks e' (m_systems s)) es"
    by (rule map_cong [OF refl])
  then have "concat (map (\<lambda>e'. removed_hooks e' (m_systems (destroy_pending e s))) es)
           = concat (map (\<lambda>e'. removed_hooks e' (m_systems s)) es)"
    by (rule arg_cong)
  moreover from Cons have "trace (fold destroy_pending (e # es) s) =
      trace (destroy_pending e s) @
      concat (map (\<lambda>e'. removed_hooks e' (m_systems (destroy_pending e s))) es)"
    by simp
  ultimately show ?case
    by (simp add: destroy_pending_fields(2))
qed

lemma fold_destroy_pending_masks:
  "m_entityMasks (fold destroy_pending es s) = filter (\<lambda>p. fst p \<notin> set es) (m_entityMasks s)"
proof (induction es arbitrary: s)
  case Nil
  then show ?case by simp
next
  case (Cons e es)
  have "AList.delete e (m_entityMasks s) = filter (\<lambda>p. fst p \<noteq> e) (m_entityMasks s)"
    by (auto simp: AList.delete_eq intro!: filter_cong)
  with Cons show ?case
    by (simp add: destroy_pending_fields conj_commute)
qed

lemma fold_destroy_pending_pool:
  "m_availableEntityIDs (fold destroy_pending es s) = m_availableEntityIDs s @ es"
  by (induction es arbitrary: s) (simp_all add: destroy_pending_fields)

lemma fold_destroy_pending_next:
  "m_nextEntityID (fold destroy_pending es s) = m_nextEntityID s"
  by (induction es arbitrary: s) (simp_all add: destroy_pending_fields)

lemma fold_destroy_pending_systems:
  "m_systems (fold destroy_pending es s) =
     map (\<lambda>p. (fst p, (snd p)\<lparr>m_entities := m_entities (snd p) - set es\<rparr>)) (m_systems s)"
proof (induction es arbitrary: s)
  case Nil
  then show ?case by (simp add: map_idI)
next
  case (Cons e es)
  have "\<And>X. X - {e} - set es = X - insert e (set es)" by auto
  with Cons show ?case
    by (simp add: destroy_pending_fields comp_def)
qed

lemma ProcessDestructions_mask:
  assumes "E \<in> set (m_entitiesToDestroy s)"
  shows "GetComponentMask E (ProcessDestructions s) = Inl map_out_of_range"
proof -
  from assms
  have "E \<notin> fst ` set (filter (\<lambda>p. fst p \<notin> set (m_entitiesToDestroy s)) (m_entityMasks s))"
    by auto
  then have "map_of (filter (\<lambda>p. fst p \<notin> set (m_entitiesToDestroy s)) (m_entityMasks s)) E = None"
    by (simp add: map_of_eq_None_iff)
  then show ?thesis
    by (simp add: GetComponentMask_def um_at_def ProcessDestructions_def fold_destroy_pending_masks)
qed

subsection \<open>Evaluating the scenarios\<close>

lemmas ecs_defs =
  EntityManager_ctor_def System_ctor_def GetComponentTypeID_def GetSystemTypeID_def
  RequireComponent_def RegisterSystem_def CreateEntity_def AddComponent_def RemoveComponent_def
  HasComponent_def GetComponent_def GetComponentMask_def DestroyEntity_def ProcessDestructions_def
  destroy_pending_def UpdateSystems_def RenderSystems_def for_systems_def AddEntity_def
  RemoveEntity_def um_index_def um_get_def um_assign_def um_at_def map_at_def insert_at_def
  slot_front_def slot_back_def bitset_set_def bitset_reset_def bitset_test_def MAX_COMPONENTS_def
  Let_def set_bit_eq_or unset_bit_eq_and_not push_bit_eq_mult bit_iff_odd

lemma hero_world_eq:
  "hero_world =
     \<lparr>s_componentTypeCounter = 2,
      componentTypeID = [''HeroComponent'' \<mapsto> 0, ''AbilitySlot'' \<mapsto> 1],
      s_systemTypeCounter = 2,
      systemTypeID = [''HeroSystem'' \<mapsto> 0, ''LoadoutSystem'' \<mapsto> 1],
      m_entityMasks = [(0, 1)],
      m_entityComponents = [0 \<mapsto> [0 \<mapsto> 0]],
      m_availableEntityIDs = [], m_nextEntityID = 1,
      m_systems =
        [(1, \<lparr>m_componentMask = 3, m_entities = {}, m_id = 1, m_active = True\<rparr>),
         (0, \<lparr>m_componentMask = 1, m_entities = {0}, m_id = 0, m_active = True\<rparr>)],
      m_entitiesToDestroy = [],
      heap_next = 1,
      trace = [SystemInitialize 0, SystemInitialize 1, ComponentInitialize 0, OnEntityAdded 0 0]\<rparr>"
  by (simp add: hero_world_def ecs_defs)

subsection \<open>Removal hooks\<close>

lemma for_systems_cond_RemoveEntity_snd:
  "snd (for_systems (\<lambda>sys. if P sys then RemoveEntity e sys else (sys, [])) t) =
     removed_hooks e (filter (\<lambda>p. P (snd p)) t)"
  by (induction t) (simp_all add: for_systems_def removed_hooks_def RemoveEntity_snd)

lemma set_removed_hooks:
  "set (removed_hooks e t) =
     {OnEntityRemoved (m_id (snd p)) e | p. p \<in> set t \<and> e \<in> m_entities (snd p)}"
  by (force simp: removed_hooks_def)

lemma removed_hook_iff:
  "OnEntityRemoved sid e' \<in> set (removed_hooks e t) \<longleftrightarrow>
     e' = e \<and> (\<exists>p \<in> set t. m_id (snd p) = sid \<and> e \<in> m_entities (snd p))"
  by (induction t) (auto simp: removed_hooks_def)

lemma distinct_removed_hooks:
  assumes "distinct (map (\<lambda>p. m_id (snd p)) t)"
  shows "distinct (removed_hooks e t)"
  using assms
proof (induction t)
  case Nil
  then show ?case by (simp add: removed_hooks_def)
next
  case (Cons p t)
  then have "OnEntityRemoved (m_id (snd p)) e \<notin> set (removed_hooks e t)"
    by (force simp: set_removed_hooks)
  with Cons show ?case by (simp add: removed_hooks_def)
qed

lemma distinct_flush_hooks:
  assumes "distinct (map (\<lambda>p. m_id (snd p)) t)"
  shows "distinct es \<Longrightarrow> distinct (concat (map (\<lambda>e. removed_hooks e t) es))"
proof (induction es)
  case Nil
  then show ?case by simp
next
  case (Cons e es)
  have "set (removed_hooks e t) \<inter> set (concat (map (\<lambda>e. removed_hooks e t) es)) = {}"
    using Cons.prems by (auto simp: set_removed_hooks)
  with Cons distinct_removed_hooks [OF assms, of e] show ?case by simp
qed

lemma RemoveComponent_trace:
  "\<exists>evs. trace (snd (RemoveComponent slot T E s)) = trace s @ evs
        \<and> (evs = [] \<or> (\<exists>c P. evs = ComponentFinalize c # removed_hooks E (filter P (m_systems s))))"
proof -
  obtain cid s1 where g: "GetComponentTypeID T s = (cid, s1)"
    by (cases "GetComponentTypeID T s")
  note fr = GetComponentTypeID_frame [OF g]
  show ?thesis
    apply (simp add: RemoveComponent_def g Let_def split_beta for_systems_cond_RemoveEntity_snd fr
        split: sum.splits option.splits)
    apply (auto simp: fr bitset_reset_def bitset_test_def split: if_splits)
    done
qed

subsection \<open>Registering types\<close>






lemma two_systems_eq:
  "two_systems =
     \<lparr>s_componentTypeCounter = 0, componentTypeID = Map.empty,
      s_systemTypeCounter = 2,
      systemTypeID = [''SystemA'' \<mapsto> 0, ''SystemB'' \<mapsto> 1],
      m_entityMasks = [], m_entityComponents = Map.empty,
      m_availableEntityIDs = [], m_nextEntityID = 0,
      m_systems =
        [(1, \<lparr>m_componentMask = 0, m_entities = {}, m_id = 1, m_active = True\<rparr>),
         (0, \<lparr>m_componentMask = 0, m_entities = {}, m_id = 0, m_active = True\<rparr>)],
      m_entitiesToDestroy = [], heap_next = 0,
      trace = [SystemInitialize 0, SystemInitialize 1]\<rparr>"
  by (simp add: two_systems_def ecs_defs)

subsection \<open>The identifier pool\<close>

lemma live_CreateEntity:
  "live (snd (CreateEntity slot s)) = insert (fst (CreateEntity slot s)) (live s)"
  by (simp add: CreateEntity_def live_def keys_um_assign split: list.splits)

lemma CreateEntity_unused:
  assumes "ids_inv s"
  shows "fst (CreateEntity slot s) \<notin> live s"
proof (cases "m_availableEntityIDs s")
  case Nil
  then have "fst (CreateEntity slot s) = m_nextEntityID s"
    by (simp add: CreateEntity_def)
  with assms show ?thesis by (auto simp: ids_inv_def)
next
  case (Cons front rest)
  then have "fst (CreateEntity slot s) = front"
    by (simp add: CreateEntity_def)
  with assms Cons show ?thesis by (auto simp: ids_inv_def)
qed

lemma unat_next_Suc:
  fixes n :: "32 word"
  assumes "unat n + 1 < 2 ^ 32"
  shows "unat (n + 1) = unat n + 1"
  using assms by (simp add: unat_word_ariths)

lemma ids_inv_CreateEntity:
  assumes inv: "ids_inv s" and room: "unat (m_nextEntityID s) + 1 < 2 ^ 32"
  shows "ids_inv (snd (CreateEntity slot s))"
proof (cases "m_availableEntityIDs s")
  case Nil
  then have c: "CreateEntity slot s =
      (m_nextEntityID s,
       s\<lparr>m_nextEntityID := m_nextEntityID s + 1,
         m_entityMasks := um_assign slot (m_nextEntityID s) 0 (m_entityMasks s),
         m_entityComponents := (m_entityComponents s)(m_nextEntityID s \<mapsto> Map.empty)\<rparr>)"
    by (simp add: CreateEntity_def)
  from inv Nil room show ?thesis
    by (auto simp: c ids_inv_def live_def keys_um_assign unat_next_Suc)
next
  case (Cons front rest)
  then have c: "CreateEntity slot s =
      (front,
       s\<lparr>m_availableEntityIDs := rest,
         m_entityMasks := um_assign slot front 0 (m_entityMasks s),
         m_entityComponents := (m_entityComponents s)(front \<mapsto> Map.empty)\<rparr>)"
    by (simp add: CreateEntity_def)
  from inv Cons show ?thesis
    by (auto simp: c ids_inv_def live_def keys_um_assign)
qed

lemma next_CreateEntity_le:
  "unat (m_nextEntityID s) + 1 < 2 ^ 32 \<Longrightarrow>
   unat (m_nextEntityID (snd (CreateEntity slot s))) \<le> unat (m_nextEntityID s) + 1"
  by (auto simp: CreateEntity_def unat_next_Suc split: list.splits)

lemma ids_inv_DestroyEntity:
  "ids_inv s \<Longrightarrow> e \<in> live s \<Longrightarrow> ids_inv (DestroyEntity e s)"
  by (auto simp: ids_inv_def DestroyEntity_def live_def set_insort_insert distinct_insort_insert)

lemma live_ProcessDestructions:
  "live (ProcessDestructions s) = live s - set (m_entitiesToDestroy s)"
  by (auto simp: live_def ProcessDestructions_def fold_destroy_pending_masks)

lemma ids_inv_ProcessDestructions:
  assumes "ids_inv s"
  shows "ids_inv (ProcessDestructions s)"
proof -
  have pool: "m_availableEntityIDs (ProcessDestructions s) =
      m_availableEntityIDs s @ m_entitiesToDestroy s"
    by (simp add: ProcessDestructions_def fold_destroy_pending_pool)
  have nxt: "m_nextEntityID (ProcessDestructions s) = m_nextEntityID s"
    by (simp add: ProcessDestructions_def fold_destroy_pending_next)
  have pend: "m_entitiesToDestroy (ProcessDestructions s) = []"
    by (simp add: ProcessDestructions_def)
  from assms show ?thesis
    unfolding ids_inv_def pool nxt pend live_ProcessDestructions
    by auto
qed

lemma ids_inv_ctor: "ids_inv EntityManager_ctor"
  by (simp add: ids_inv_def EntityManager_ctor_def live_def)

lemma next_step_le:
  "unat (m_nextEntityID s) + 1 < 2 ^ 32 \<Longrightarrow>
   unat (m_nextEntityID (step slot c s)) \<le> unat (m_nextEntityID s) + 1"
proof (cases c)
  case Create
  then show "unat (m_nextEntityID s) + 1 < 2 ^ 32 \<Longrightarrow> ?thesis"
    using next_CreateEntity_le [of s slot] by simp
next
  case (Destroy e)
  then show ?thesis by (simp add: DestroyEntity_def)
next
  case Flush
  then show ?thesis by (simp add: ProcessDestructions_def fold_destroy_pending_next)
qed

lemma creates_unused_from:
  "ids_inv s \<Longrightarrow> destroys_live slot cs s \<Longrightarrow>
   unat (m_nextEntityID s) + length cs < 2 ^ 32 \<Longrightarrow> creates_unused slot cs s"
proof (induction cs arbitrary: s)
  case Nil
  then show ?case by simp
next
  case (Cons c cs)
  from Cons.prems(3) have room: "unat (m_nextEntityID s) + 1 < 2 ^ 32" by simp
  have inv': "ids_inv (step slot c s)"
    using Cons.prems(1,2) room
    by (cases c) (simp_all add: ids_inv_CreateEntity ids_inv_DestroyEntity ids_inv_ProcessDestructions)
  have dl': "destroys_live slot cs (step slot c s)"
    using Cons.prems(2) by (cases c) simp_all
  have "unat (m_nextEntityID (step slot c s)) + length cs < 2 ^ 32"
    using next_step_le [OF room, of slot c] Cons.prems(3) by simp
  with Cons.IH [OF inv' dl'] have rest: "creates_unused slot cs (step slot c s)" .
  show ?case
    using rest CreateEntity_unused [OF Cons.prems(1), of slot]
    by (cases c) simp_all
qed

lemma create_many:
  "m_availableEntityIDs (fold (step slot) (replicate n Create) EntityManager_ctor) = []
   \<and> m_nextEntityID (fold (step slot) (replicate n Create) EntityManager_ctor) = of_nat n
   \<and> live (fold (step slot) (replicate n Create) EntityManager_ctor) = of_nat ` {..<n}"
proof (induction n)
  case 0
  then show ?case by (simp add: EntityManager_ctor_def live_def)
next
  case (Suc n)
  let ?s = "fold (step slot) (replicate n Create) EntityManager_ctor"
  have r: "fold (step slot) (replicate (Suc n) Create) EntityManager_ctor = snd (CreateEntity slot ?s)"
    by (simp add: replicate_append_same [symmetric] del: replicate_Suc)
  from Suc have c: "fst (CreateEntity slot ?s) = of_nat n"
    "m_availableEntityIDs (snd (CreateEntity slot ?s)) = []"
    "m_nextEntityID (snd (CreateEntity slot ?s)) = of_nat (Suc n)"
    by (simp_all add: CreateEntity_def)
  from Suc c show ?case
    unfolding r by (simp add: live_CreateEntity lessThan_Suc)
qed

lemma card_word_of_nat:
  assumes "n \<le> 2 ^ 32"
  shows "card ((of_nat :: nat \<Rightarrow> 32 word) ` {..<n}) = n"
proof -
  have "inj_on (of_nat :: nat \<Rightarrow> 32 word) {..<n}"
  proof (rule inj_onI)
    fix a b assume "a \<in> {..<n}" "b \<in> {..<n}" and eq: "(of_nat a :: 32 word) = of_nat b"
    then have "a < 2 ^ 32" "b < 2 ^ 32" using assms by auto
    moreover from eq have "unat (of_nat a :: 32 word) = unat (of_nat b :: 32 word)" by simp
    ultimately show "a = b" by (simp add: unat_of_nat)
  qed
  then show ?thesis by (simp add: card_image)
qed

subsection \<open>Subscriptions\<close>

text \<open>
  \<^verbatim>\<open>AddComponent\<close>, \<^verbatim>\<open>RemoveComponent\<close> and \<^verbatim>\<open>RegisterSystem\<close> keep the subscriber sets
  in agreement with the masks. \<^verbatim>\<open>CreateEntity\<close> keeps it only when no system has the
  empty required mask: it does not look at the systems.
\<close>

lemma superset_iff:
  fixes m M :: ComponentMask
  shows "(m AND M) = M \<longleftrightarrow> (\<forall>n. bit M n \<longrightarrow> bit m n)"
proof
  assume eq: "(m AND M) = M"
  show "\<forall>n. bit M n \<longrightarrow> bit m n"
  proof (intro allI impI)
    fix n assume "bit M n"
    then have "bit (m AND M) n" using eq by simp
    then show "bit m n" by (simp add: bit_and_iff)
  qed
next
  assume "\<forall>n. bit M n \<longrightarrow> bit m n"
  then show "(m AND M) = M"
    by (auto simp: bit_eq_iff bit_and_iff)
qed

lemma superset_set_bit:
  fixes m M :: ComponentMask
  shows "(m AND M) = M \<Longrightarrow> (set_bit n m AND M) = M"
  by (auto simp: superset_iff bit_set_bit_iff)

lemma superset_unset_bit:
  fixes m M :: ComponentMask
  shows "(unset_bit n m AND M) = M \<Longrightarrow> (m AND M) = M"
  by (auto simp: superset_iff bit_unset_bit_iff)

lemma live_iff: "E \<in> live s \<longleftrightarrow> (\<exists>m. map_of (m_entityMasks s) E = Some m)"
  by (simp add: live_def flip: dom_map_of_conv_image_fst) blast

lemma AddEntity_fst: "fst (AddEntity e sys) = sys\<lparr>m_entities := insert e (m_entities sys)\<rparr>"
  by (simp add: AddEntity_def)

lemma AddComponent_consistent:
  assumes inv: "subscriptions_consistent s" and live: "E \<in> live s"
  shows "subscriptions_consistent (snd (AddComponent slot T E s))"
proof -
  obtain cid s1 where g: "GetComponentTypeID T s = (cid, s1)"
    by (cases "GetComponentTypeID T s")
  note fr = GetComponentTypeID_frame [OF g]
  from live obtain m where m: "map_of (m_entityMasks s1) E = Some m"
    by (auto simp: live_iff fr)
  show ?thesis
  proof (cases "unat cid < MAX_COMPONENTS")
    case False
    then have "snd (AddComponent slot T E s) =
        s1\<lparr>heap_next := Suc (heap_next s1),
           m_entityComponents := (m_entityComponents s1)
             (E \<mapsto> (case m_entityComponents s1 E of None \<Rightarrow> Map.empty | Some cs \<Rightarrow> cs)
                      (cid \<mapsto> heap_next s1)),
           m_entityMasks := m_entityMasks s1\<rparr>"
      using m by (simp add: AddComponent_def g Let_def bitset_set_def um_index_present)
    with inv show ?thesis
      by (simp add: subscriptions_consistent_def fr)
  next
    case True
    let ?m' = "set_bit (unat cid) m"
    have "\<And>M :: ComponentMask. (m AND M) = M \<Longrightarrow> (?m' AND M) = M"
      by (rule superset_set_bit)
    with inv m show ?thesis
      unfolding subscriptions_consistent_def
      by (auto simp: AddComponent_in_capacity [OF g True] Let_def um_index_present um_get_present
          for_systems_def update_conv' AddEntity_fst fr split: if_splits)
  qed
qed


lemma RemoveComponent_consistent:
  assumes inv: "subscriptions_consistent s" and live: "E \<in> live s"
  shows "subscriptions_consistent (snd (RemoveComponent slot T E s))"
proof -
  obtain cid s1 where g: "GetComponentTypeID T s = (cid, s1)"
    by (cases "GetComponentTypeID T s")
  note fr = GetComponentTypeID_frame [OF g]
  from live obtain m where m: "map_of (m_entityMasks s1) E = Some m"
    by (auto simp: live_iff fr)
  have same: "subscriptions_consistent (s1\<lparr>m_entityMasks := m_entityMasks s1\<rparr>)"
    using inv by (simp add: subscriptions_consistent_def fr)
  have "\<And>M :: ComponentMask. (unset_bit (unat cid) m AND M) = M \<Longrightarrow> (m AND M) = M"
    by (rule superset_unset_bit)
  with inv m same show ?thesis
    unfolding subscriptions_consistent_def
    by (auto simp: RemoveComponent_def g Let_def um_index_present um_get_present
        bitset_test_def bitset_reset_def for_systems_def update_conv' RemoveEntity_fst fr
        split: if_splits option.splits)
qed


lemma RequireComponent_frame:
  assumes "RequireComponent T sys s = (r, s1)"
  shows "m_systems s1 = m_systems s" "m_entityMasks s1 = m_entityMasks s"
    "\<And>sys1. r = Inr sys1 \<Longrightarrow> m_entities sys1 = m_entities sys"
  using assms
  by (auto simp: RequireComponent_def GetComponentTypeID_def bitset_set_def
      split: option.splits if_splits)

lemma construct_system_frame:
  "construct_system Ts sys s = (r, s1) \<Longrightarrow>
   m_systems s1 = m_systems s \<and> m_entityMasks s1 = m_entityMasks s
   \<and> (\<forall>sys1. r = Inr sys1 \<longrightarrow> m_entities sys1 = m_entities sys)"
proof (induction Ts arbitrary: sys s)
  case Nil
  then show ?case by auto
next
  case (Cons T Ts)
  obtain r0 s0 where rc: "RequireComponent T sys s = (r0, s0)"
    by (cases "RequireComponent T sys s")
  note fr = RequireComponent_frame [OF rc]
  show ?case
  proof (cases r0)
    case (Inl e)
    with Cons.prems rc fr show ?thesis by auto
  next
    case (Inr sys0)
    with Cons.prems rc have "construct_system Ts sys0 s0 = (r, s1)" by simp
    from Cons.IH [OF this] fr Inr show ?thesis by simp
  qed
qed

lemma add_matching_fields:
  "m_componentMask (fst (add_matching masks sys)) = m_componentMask sys"
  "m_entities (fst (add_matching masks sys)) =
     m_entities sys \<union>
     {e. \<exists>m. (e, m) \<in> set masks \<and> (m AND m_componentMask sys) = m_componentMask sys}"
proof (induction masks arbitrary: sys)
  case Nil
  { case 1 show ?case by simp }
  { case 2 show ?case by simp }
next
  case (Cons p masks)
  { case 1
    show ?case using Cons(1)
      by (cases p) (simp add: AddEntity_def split_beta) }
  { case 2
    show ?case using Cons(1) Cons(2)
      by (cases p) (auto simp: AddEntity_def split_beta) }
qed

lemma update_after_prefix:
  "k \<notin> fst ` set xs \<Longrightarrow> AList.update k v' (xs @ (k, v) # ys) = xs @ (k, v') # ys"
  by (induction xs) auto

lemma update_um_assign: "AList.update k v' (um_assign slot k v t) = um_assign slot k v' t"
proof (cases "map_of t k")
  case None
  then have "k \<notin> fst ` set (take n t)" "k \<notin> fst ` set (drop n t)" for n
    by (auto simp: map_of_eq_None_iff dest: in_set_takeD in_set_dropD)
  then have "AList.update k v' (take n t @ (k, v) # drop n t) = take n t @ (k, v') # drop n t" for n
    by (simp add: update_after_prefix)
  with None show ?thesis by (simp add: um_assign_def insert_at_def)
next
  case (Some old)
  then have "map_of (AList.update k v t) k = Some v" by (simp add: update_conv')
  with Some show ?thesis by (simp add: um_assign_def)
qed


lemma set_um_assign: "set (um_assign slot k v t) \<subseteq> insert (k, v) (set t)"
proof (cases "map_of t k")
  case None
  have "set (take n t) \<union> set (drop n t) = set t" for n
    by (metis append_take_drop_id set_append)
  with None show ?thesis by (auto simp: um_assign_def insert_at_def)
next
  case (Some old)
  have "set (AList.update k v t) \<subseteq> insert (k, v) (set t)"
    by (induction t) auto
  with Some show ?thesis by (simp add: um_assign_def)
qed

lemma GetSystemTypeID_frame:
  assumes "GetSystemTypeID T s = (sid, s1)"
  shows "m_systems s1 = m_systems s" "m_entityMasks s1 = m_entityMasks s"
  using assms by (auto simp: GetSystemTypeID_def split: option.splits)

lemma RegisterSystem_failure:
  assumes "GetSystemTypeID T s = (sid, s1)"
    and "construct_system required System_ctor s1 = (Inl e, s2)"
  shows "RegisterSystem slot T required s = (Inl e, s2)"
  using assms by (simp add: RegisterSystem_def)

lemma RegisterSystem_success:
  assumes "GetSystemTypeID T s = (sid, s1)"
    and "construct_system required System_ctor s1 = (Inr constructed, s2)"
  shows "RegisterSystem slot T required s =
     (let system = constructed\<lparr>m_id := sid\<rparr>;
          scanned = add_matching (m_entityMasks s2) system
      in (Inr sid,
          s2\<lparr>m_systems := um_assign slot sid (fst scanned) (m_systems s2),
             trace := trace s2 @ SystemInitialize sid # snd scanned\<rparr>))"
  using assms by (simp add: RegisterSystem_def Let_def split_beta update_um_assign)


lemma add_matching_member:
  assumes "distinct (map fst masks)" and "m_entities sys = {}"
  shows "e \<in> m_entities (fst (add_matching masks sys)) \<longleftrightarrow>
     (\<exists>m. map_of masks e = Some m \<and> (m AND m_componentMask sys) = m_componentMask sys)"
proof -
  from assms(1) have "(e, m) \<in> set masks \<longleftrightarrow> map_of masks e = Some m" for m
    by (rule map_of_eq_Some_iff [symmetric])
  with assms(2) show ?thesis
    unfolding add_matching_fields by simp
qed

lemma consistentD:
  "subscriptions_consistent s \<Longrightarrow> p \<in> set (m_systems s) \<Longrightarrow>
   e \<in> m_entities (snd p) \<longleftrightarrow>
     (\<exists>m. map_of (m_entityMasks s) e = Some m
        \<and> (m AND m_componentMask (snd p)) = m_componentMask (snd p))"
  unfolding subscriptions_consistent_def by (drule (1) bspec) (erule allE)

lemma RegisterSystem_consistent:
  assumes inv: "subscriptions_consistent s" and keys: "distinct (map fst (m_entityMasks s))"
  shows "subscriptions_consistent (snd (RegisterSystem slot T required s))"
proof -
  obtain sid s1 where gs: "GetSystemTypeID T s = (sid, s1)"
    by (cases "GetSystemTypeID T s")
  obtain r s2 where cs: "construct_system required System_ctor s1 = (r, s2)"
    by (cases "construct_system required System_ctor s1")
  from construct_system_frame [OF cs] GetSystemTypeID_frame [OF gs]
  have fr: "m_systems s2 = m_systems s" "m_entityMasks s2 = m_entityMasks s"
    and subs: "\<And>sys1. r = Inr sys1 \<Longrightarrow> m_entities sys1 = {}"
    by (simp_all add: System_ctor_def)
  show ?thesis
  proof (cases r)
    case (Inl e)
    with cs have "construct_system required System_ctor s1 = (Inl e, s2)" by simp
    from RegisterSystem_failure [OF gs this]
    have "snd (RegisterSystem slot T required s) = s2" by simp
    moreover have "subscriptions_consistent s2"
      using inv unfolding subscriptions_consistent_def fr .
    ultimately show ?thesis by simp
  next
    case (Inr constructed)
    let ?system = "constructed\<lparr>m_id := sid\<rparr>"
    let ?system' = "fst (add_matching (m_entityMasks s) ?system)"
    from Inr cs have "construct_system required System_ctor s1 = (Inr constructed, s2)" by simp
    note ok = RegisterSystem_success [OF gs this, of slot]
    have final: "m_systems (snd (RegisterSystem slot T required s)) =
        um_assign slot sid ?system' (m_systems s)"
      and masks: "m_entityMasks (snd (RegisterSystem slot T required s)) = m_entityMasks s"
      by (simp_all add: ok Let_def fr)
    have "m_entities ?system = {}"
      using subs [OF Inr] by simp
    note new = add_matching_member [OF keys this]
    show ?thesis
      unfolding subscriptions_consistent_def final masks
    proof (intro ballI allI)
      fix p e assume "p \<in> set (um_assign slot sid ?system' (m_systems s))"
      with set_um_assign [of slot sid ?system' "m_systems s"]
      have "p = (sid, ?system') \<or> p \<in> set (m_systems s)" by auto
      then show "e \<in> m_entities (snd p) \<longleftrightarrow>
          (\<exists>m. map_of (m_entityMasks s) e = Some m
             \<and> (m AND m_componentMask (snd p)) = m_componentMask (snd p))"
      proof
        assume "p = (sid, ?system')"
        then show ?thesis using new [of e] by (simp add: add_matching_fields(1))
      next
        assume "p \<in> set (m_systems s)"
        with inv show ?thesis by (rule consistentD)
      qed
    qed
  qed
qed

lemma CreateEntity_consistent_unless_empty_mask:
  assumes inv: "subscriptions_consistent s" and fresh: "fst (CreateEntity slot s) \<notin> live s"
    and nonempty: "\<forall>p \<in> set (m_systems s). m_componentMask (snd p) \<noteq> 0"
  shows "subscriptions_consistent (snd (CreateEntity slot s))"
proof -
  let ?e = "fst (CreateEntity slot s)"
  have sys: "m_systems (snd (CreateEntity slot s)) = m_systems s"
    and masks: "map_of (m_entityMasks (snd (CreateEntity slot s))) = (map_of (m_entityMasks s))(?e \<mapsto> 0)"
    by (simp_all add: CreateEntity_def map_of_um_assign split: list.splits)
  from fresh have none: "map_of (m_entityMasks s) ?e = None"
    by (simp add: live_def map_of_eq_None_iff)
  show ?thesis
    unfolding subscriptions_consistent_def sys masks
  proof (intro ballI allI)
    fix p e assume p: "p \<in> set (m_systems s)"
    with inv none have "?e \<notin> m_entities (snd p)"
      by (auto simp: subscriptions_consistent_def)
    moreover from p nonempty have "m_componentMask (snd p) \<noteq> 0" by blast
    ultimately show "e \<in> m_entities (snd p) \<longleftrightarrow>
        (\<exists>m. ((map_of (m_entityMasks s))(?e \<mapsto> 0)) e = Some m
           \<and> (m AND m_componentMask (snd p)) = m_componentMask (snd p))"
      using inv p by (auto simp: subscriptions_consistent_def)
  qed
qed

subsection \<open>Unknown entities, and the hooks of attach and flush\<close>

lemma unknown_entity_queries:
  assumes "E \<notin> live s"
  shows "GetComponentMask E s = Inl map_out_of_range"
    and "fst (HasComponent T E s) = Inl map_out_of_range"
    and "fst (GetComponent T E s) = Inl map_out_of_range"
proof -
  obtain cid s1 where g: "GetComponentTypeID T s = (cid, s1)"
    by (cases "GetComponentTypeID T s")
  from assms have none: "map_of (m_entityMasks s) E = None"
    by (simp add: live_def map_of_eq_None_iff)
  then show "GetComponentMask E s = Inl map_out_of_range"
    by (simp add: GetComponentMask_def um_at_def)
  from none show "fst (HasComponent T E s) = Inl map_out_of_range"
    by (simp add: HasComponent_def g GetComponentTypeID_frame(1) [OF g] um_at_def)
  from none show "fst (GetComponent T E s) = Inl map_out_of_range"
    by (simp add: GetComponent_def g GetComponentTypeID_frame(1) [OF g] um_at_def)
qed

lemma live_um_index: "fst ` set (um_index slot d k t) = insert k (fst ` set t)"
proof -
  have "dom (map_of (um_index slot d k t)) = insert k (dom (map_of t))"
    by (auto simp: map_of_um_index split: option.splits)
  then show ?thesis by (simp add: dom_map_of_conv_image_fst)
qed

lemma AddComponent_makes_live:
  "unat (fst (GetComponentTypeID T s)) < MAX_COMPONENTS \<Longrightarrow>
   fst (AddComponent slot T E s) = Inr (heap_next s)
   \<and> live (snd (AddComponent slot T E s)) = insert E (live s)"
proof -
  assume cap: "unat (fst (GetComponentTypeID T s)) < MAX_COMPONENTS"
  obtain cid s1 where g: "GetComponentTypeID T s = (cid, s1)"
    by (cases "GetComponentTypeID T s")
  note fr = GetComponentTypeID_frame [OF g]
  from cap g have c: "unat cid < MAX_COMPONENTS" by simp
  show ?thesis
    by (simp add: AddComponent_in_capacity [OF g c] Let_def live_def dom_update live_um_index fr)
qed

lemma RemoveComponent_makes_live:
  "E \<notin> live s \<Longrightarrow> unat (fst (GetComponentTypeID T s)) < MAX_COMPONENTS \<Longrightarrow>
   fst (RemoveComponent slot T E s) = Inr ()
   \<and> live (snd (RemoveComponent slot T E s)) = insert E (live s)"
proof -
  assume unknown: "E \<notin> live s" and cap: "unat (fst (GetComponentTypeID T s)) < MAX_COMPONENTS"
  obtain cid s1 where g: "GetComponentTypeID T s = (cid, s1)"
    by (cases "GetComponentTypeID T s")
  note fr = GetComponentTypeID_frame [OF g]
  from cap g have c: "unat cid < MAX_COMPONENTS" by simp
  from unknown have "map_of (m_entityMasks s1) E = None"
    by (simp add: live_def map_of_eq_None_iff fr)
  then have "\<not> bit (um_get 0 E (m_entityMasks s1)) (unat cid)"
    by (simp add: um_get_def)
  from RemoveComponent_absent [OF g c this] show ?thesis
    by (simp add: live_def live_um_index fr)
qed

lemma AddEntity_hook_unconditional:
  "snd (AddEntity e sys) = [OnEntityAdded (m_id sys) e]"
  "e \<in> m_entities sys \<Longrightarrow> fst (AddEntity e sys) = sys"
  by (simp_all add: AddEntity_def insert_absorb)

lemma flush_calls_only_removed_hooks:
  "\<exists>evs. trace (fold destroy_pending es s) = trace s @ evs
        \<and> (\<forall>ev \<in> set evs. \<exists>sid e. ev = OnEntityRemoved sid e)"
proof (induction es arbitrary: s)
  case Nil
  then show ?case by simp
next
  case (Cons e es)
  from Cons [of "destroy_pending e s"] obtain evs
    where "trace (fold destroy_pending es (destroy_pending e s)) =
        trace s @ removed_hooks e (m_systems s) @ evs"
      and "\<forall>ev \<in> set evs. \<exists>sid e. ev = OnEntityRemoved sid e"
    by (auto simp: destroy_pending_fields)
  then show ?case
    by (intro exI [of _ "removed_hooks e (m_systems s) @ evs"]) (auto simp: removed_hooks_def)
qed

lemma ProcessDestructions_never_finalizes:
  "ComponentFinalize c \<in> set (trace (ProcessDestructions s)) \<longleftrightarrow>
   ComponentFinalize c \<in> set (trace s)"
  using flush_calls_only_removed_hooks [of "m_entitiesToDestroy s" s]
  by (auto simp: ProcessDestructions_def)

lemma GetComponent_absent_is_null:
  assumes "GetComponentMask E s = Inr m"
    and "unat (fst (GetComponentTypeID T s)) < MAX_COMPONENTS"
    and "\<not> bit m (unat (fst (GetComponentTypeID T s)))"
  shows "fst (GetComponent T E s) = Inr None"
proof -
  obtain cid s1 where g: "GetComponentTypeID T s = (cid, s1)"
    by (cases "GetComponentTypeID T s")
  from assms(1) have "map_of (m_entityMasks s1) E = Some m"
    by (simp add: GetComponentMask_def um_at_def GetComponentTypeID_frame(1) [OF g]
        split: option.splits)
  with assms(2,3) show ?thesis
    by (simp add: GetComponent_def g um_at_def bitset_test_def)
qed

text \<open>With a table that links a new entry behind the others, the same two registrations
  are visited in the order of registration.\<close>

lemma update_order_with_slot_back:
  "trace (UpdateSystems 16
     (snd (RegisterSystem slot_back ''SystemB'' []
       (snd (RegisterSystem slot_back ''SystemA'' [] EntityManager_ctor))))) =
   [SystemInitialize 0, SystemInitialize 1, SystemUpdate 0 16, SystemUpdate 1 16]"
  by (simp add: ecs_defs)

text \<open>
  The pool goes wrong only through a \<^verbatim>\<open>DestroyEntity\<close> of an identifier that is not
  live: along a run on a new manager in which every \<^verbatim>\<open>DestroyEntity\<close> names an entity
  live at that moment, and that is too short for the 32-bit counter to wrap, every
  \<^verbatim>\<open>CreateEntity\<close> returns an identifier that is not live.
\<close>

lemma creates_unused_on_new_manager:
  assumes "destroys_live slot cs EntityManager_ctor" and "length cs < 2 ^ 32"
  shows "creates_unused slot cs EntityManager_ctor"
  using assms ids_inv_ctor
  by (intro creates_unused_from) (simp_all add: EntityManager_ctor_def)

lemma stale_destroy_breaks_creates_unused:
  "\<not> destroys_live slot_front [Create, Destroy 0, Flush, Destroy 0, Flush, Create, Create]
       EntityManager_ctor
   \<and> \<not> creates_unused slot_front [Create, Destroy 0, Flush, Destroy 0, Flush, Create, Create]
       EntityManager_ctor"
  by (simp add: ecs_defs live_def insort_insert_key_def)

section \<open>The claims\<close>

text \<open>
  C1 on the code. \<^verbatim>\<open>CreateEntity\<close> does not look at the systems. With \<^verbatim>\<open>TickSystem\<close>,
  which requires no component, registered first, the entity created next is live with
  the empty mask, a superset of the required mask, and is in no subscriber set. In the
  other order \<^verbatim>\<open>RegisterSystem\<close> does subscribe the entity.
\<close>

theorem entity_created_after_registration_is_not_subscribed:
  "fst (CreateEntity slot_front tick_world) = 0
   \<and> GetComponentMask 0 (snd (CreateEntity slot_front tick_world)) = Inr 0
   \<and> m_systems (snd (CreateEntity slot_front tick_world)) =
       [(0, \<lparr>m_componentMask = 0, m_entities = {}, m_id = 0, m_active = True\<rparr>)]
   \<and> m_systems (snd (RegisterSystem slot_front ''TickSystem'' []
         (snd (CreateEntity slot_front EntityManager_ctor)))) =
       [(0, \<lparr>m_componentMask = 0, m_entities = {0}, m_id = 0, m_active = True\<rparr>)]"
  by (simp add: tick_world_def ecs_defs)

text \<open>
  C2. For a live entity \<open>E\<close> and a component type \<open>T\<close> whose identifier is below the mask
  capacity: after \<^verbatim>\<open>AddComponent<T>(E)\<close>, \<^verbatim>\<open>HasComponent<T>(E)\<close> is true and
  \<^verbatim>\<open>GetComponent<T>(E)\<close> is the address \<^verbatim>\<open>AddComponent\<close> returned; after
  \<^verbatim>\<open>RemoveComponent<T>(E)\<close>, \<^verbatim>\<open>HasComponent<T>(E)\<close> is false and \<^verbatim>\<open>GetComponent<T>(E)\<close> is
  the null pointer; and when \<open>E\<close> has no component of type \<open>T\<close>, \<^verbatim>\<open>RemoveComponent<T>(E)\<close>
  returns normally and leaves the state as the lookup of the identifier of \<open>T\<close> left it
  (the state before, when \<open>T\<close> already had its identifier). The third hypothesis is the
  data model's invariant for \<open>E\<close> and \<open>T\<close>: a mask bit that is set has its component.
\<close>

theorem attach_detach_has_get:
  assumes live: "GetComponentMask E s = Inr m"
    and cap: "unat (fst (GetComponentTypeID T s)) < MAX_COMPONENTS"
    and backed: "bit m (unat (fst (GetComponentTypeID T s))) \<Longrightarrow>
       \<exists>cs c. m_entityComponents s E = Some cs \<and> cs (fst (GetComponentTypeID T s)) = Some c"
  shows "(\<exists>c. fst (AddComponent slot T E s) = Inr c
            \<and> fst (HasComponent T E (snd (AddComponent slot T E s))) = Inr True
            \<and> fst (GetComponent T E (snd (AddComponent slot T E s))) = Inr (Some c))
       \<and> (fst (RemoveComponent slot T E s) = Inr ()
            \<and> fst (HasComponent T E (snd (RemoveComponent slot T E s))) = Inr False
            \<and> fst (GetComponent T E (snd (RemoveComponent slot T E s))) = Inr None)
       \<and> (fst (HasComponent T E s) = Inr False \<longrightarrow>
            RemoveComponent slot T E s = (Inr (), snd (GetComponentTypeID T s)))"
proof -
  obtain cid s1 where g: "GetComponentTypeID T s = (cid, s1)"
    by (cases "GetComponentTypeID T s")
  have known: "componentTypeID s1 T = Some cid"
    using GetComponentTypeID_registers [of T s] g by simp
  have c: "unat cid < MAX_COMPONENTS"
    using cap g by simp
  have m: "map_of (m_entityMasks s1) E = Some m"
    using live GetComponentTypeID_frame(1) [OF g]
    by (simp add: GetComponentMask_def um_at_def split: option.splits)
  have attach: "\<exists>k. fst (AddComponent slot T E s) = Inr k
      \<and> fst (HasComponent T E (snd (AddComponent slot T E s))) = Inr True
      \<and> fst (GetComponent T E (snd (AddComponent slot T E s))) = Inr (Some k)"
    using c known
    by (simp add: AddComponent_in_capacity [OF g c] Let_def HasComponent_known GetComponent_known
        um_at_def update_conv' bitset_test_def map_at_def bit_set_bit_iff MAX_COMPONENTS_def)
  have detach: "fst (RemoveComponent slot T E s) = Inr ()
      \<and> fst (HasComponent T E (snd (RemoveComponent slot T E s))) = Inr False
      \<and> fst (GetComponent T E (snd (RemoveComponent slot T E s))) = Inr None"
  proof (cases "bit m (unat cid)")
    case False
    then have "\<not> bit (um_get 0 E (m_entityMasks s1)) (unat cid)"
      using m by (simp add: um_get_present)
    from RemoveComponent_absent [OF g c this] m False c known show ?thesis
      by (simp add: um_index_present HasComponent_known GetComponent_known um_at_def
          bitset_test_def)
  next
    case True
    with backed g obtain cs k where cs: "m_entityComponents s1 E = Some cs" "cs cid = Some k"
      using GetComponentTypeID_frame(2) [OF g] by auto
    from RemoveComponent_present [OF g c m True cs] c known show ?thesis
      by (simp add: Let_def HasComponent_known GetComponent_known um_at_def update_conv'
          bitset_test_def bit_unset_bit_iff)
  qed
  have noop: "RemoveComponent slot T E s = (Inr (), snd (GetComponentTypeID T s))"
    if "fst (HasComponent T E s) = Inr False"
  proof -
    from that g m have nb: "\<not> bit m (unat cid)"
      by (auto simp: HasComponent_def um_at_def bitset_test_def split: if_splits)
    with m have "\<not> bit (um_get 0 E (m_entityMasks s1)) (unat cid)"
      by (simp add: um_get_present)
    from RemoveComponent_absent [OF g c this] m g show ?thesis
      by (simp add: um_index_present)
  qed
  from attach detach noop show ?thesis by blast
qed

theorem attach_detach_has_get_witness:
  "GetComponentMask 0 hero_world = Inr 1
   \<and> unat (fst (GetComponentTypeID ''HeroComponent'' hero_world)) < MAX_COMPONENTS
   \<and> bit (1 :: ComponentMask) (unat (fst (GetComponentTypeID ''HeroComponent'' hero_world)))
   \<and> (\<exists>cs c. m_entityComponents hero_world 0 = Some cs
          \<and> cs (fst (GetComponentTypeID ''HeroComponent'' hero_world)) = Some c)
   \<and> fst (RemoveComponent slot_front ''HeroComponent'' 0 hero_world) = Inr ()
   \<and> fst (HasComponent ''HeroComponent'' 0
            (snd (RemoveComponent slot_front ''HeroComponent'' 0 hero_world))) = Inr False
   \<and> fst (GetComponent ''HeroComponent'' 0
            (snd (RemoveComponent slot_front ''HeroComponent'' 0 hero_world))) = Inr None
   \<and> unat (fst (GetComponentTypeID ''AbilitySlot'' hero_world)) < MAX_COMPONENTS
   \<and> fst (AddComponent slot_front ''AbilitySlot'' 0 hero_world) = Inr 1
   \<and> fst (HasComponent ''AbilitySlot'' 0
            (snd (AddComponent slot_front ''AbilitySlot'' 0 hero_world))) = Inr True
   \<and> fst (GetComponent ''AbilitySlot'' 0
            (snd (AddComponent slot_front ''AbilitySlot'' 0 hero_world))) = Inr (Some 1)
   \<and> fst (HasComponent ''AbilitySlot'' 0 hero_world) = Inr False
   \<and> RemoveComponent slot_front ''AbilitySlot'' 0 hero_world = (Inr (), hero_world)"
proof -
  have live: "GetComponentMask 0 hero_world = Inr 1"
    by (simp add: hero_world_eq GetComponentMask_def um_at_def)
  have gh: "GetComponentTypeID ''HeroComponent'' hero_world = (0, hero_world)"
    by (rule GetComponentTypeID_known) (simp add: hero_world_eq)
  have ga: "GetComponentTypeID ''AbilitySlot'' hero_world = (1, hero_world)"
    by (rule GetComponentTypeID_known) (simp add: hero_world_eq)
  have cap_h: "unat (fst (GetComponentTypeID ''HeroComponent'' hero_world)) < MAX_COMPONENTS"
    by (simp add: gh MAX_COMPONENTS_def)
  have cap_a: "unat (fst (GetComponentTypeID ''AbilitySlot'' hero_world)) < MAX_COMPONENTS"
    by (simp add: ga MAX_COMPONENTS_def)
  have set_h: "bit (1 :: ComponentMask) (unat (fst (GetComponentTypeID ''HeroComponent'' hero_world)))"
    by (simp add: gh)
  have backed_h: "\<exists>cs c. m_entityComponents hero_world 0 = Some cs
      \<and> cs (fst (GetComponentTypeID ''HeroComponent'' hero_world)) = Some c"
    by (simp add: gh) (simp add: hero_world_eq)
  have backed_a: "bit (1 :: ComponentMask) (unat (fst (GetComponentTypeID ''AbilitySlot'' hero_world)))
      \<Longrightarrow> \<exists>cs c. m_entityComponents hero_world 0 = Some cs
            \<and> cs (fst (GetComponentTypeID ''AbilitySlot'' hero_world)) = Some c"
    by (simp add: ga bit_iff_odd)
  have has: "fst (HasComponent ''AbilitySlot'' 0 hero_world) = Inr False"
    by (simp add: HasComponent_def ga) (simp add: hero_world_eq ecs_defs)
  have attach: "fst (AddComponent slot_front ''AbilitySlot'' 0 hero_world) = Inr 1"
    by (simp add: AddComponent_def ga) (simp add: hero_world_eq ecs_defs)
  from attach_detach_has_get [OF live cap_h backed_h, of slot_front]
  have detach_h: "fst (RemoveComponent slot_front ''HeroComponent'' 0 hero_world) = Inr ()
      \<and> fst (HasComponent ''HeroComponent'' 0
            (snd (RemoveComponent slot_front ''HeroComponent'' 0 hero_world))) = Inr False
      \<and> fst (GetComponent ''HeroComponent'' 0
            (snd (RemoveComponent slot_front ''HeroComponent'' 0 hero_world))) = Inr None"
    by blast
  from attach_detach_has_get [OF live cap_a backed_a, of slot_front] has attach ga
  have "fst (HasComponent ''AbilitySlot'' 0
            (snd (AddComponent slot_front ''AbilitySlot'' 0 hero_world))) = Inr True
      \<and> fst (GetComponent ''AbilitySlot'' 0
            (snd (AddComponent slot_front ''AbilitySlot'' 0 hero_world))) = Inr (Some 1)
      \<and> RemoveComponent slot_front ''AbilitySlot'' 0 hero_world = (Inr (), hero_world)"
    by auto
  with live cap_h set_h backed_h detach_h cap_a attach has show ?thesis
    by blast
qed

text \<open>
  C3 on the code. \<^verbatim>\<open>ProcessDestructions\<close> erases the component table of a pending entity
  without a call of \<^verbatim>\<open>Finalize\<close>: the flush of the hero, whose \<^verbatim>\<open>HeroComponent\<close> is still
  attached, calls \<^verbatim>\<open>OnEntityRemoved\<close> only. The rest of the claim holds there: the
  hero leaves both subscriber sets, its mask and components are gone, its identifier is
  in the pool and the pending set is empty. \<^verbatim>\<open>RemoveComponent\<close> on the same world does
  call \<^verbatim>\<open>Finalize\<close>.
\<close>

theorem flush_does_not_finalize_components:
  "fst (GetComponent ''HeroComponent'' 0 hero_world) = Inr (Some 0)
   \<and> trace (ProcessDestructions (DestroyEntity 0 hero_world)) =
       trace hero_world @ [OnEntityRemoved 0 0]
   \<and> map (\<lambda>p. m_entities (snd p)) (m_systems (ProcessDestructions (DestroyEntity 0 hero_world)))
       = [{}, {}]
   \<and> GetComponentMask 0 (ProcessDestructions (DestroyEntity 0 hero_world)) = Inl map_out_of_range
   \<and> m_entityComponents (ProcessDestructions (DestroyEntity 0 hero_world)) 0 = None
   \<and> m_availableEntityIDs (ProcessDestructions (DestroyEntity 0 hero_world)) = [0]
   \<and> m_entitiesToDestroy (ProcessDestructions (DestroyEntity 0 hero_world)) = []
   \<and> trace (snd (RemoveComponent slot_front ''HeroComponent'' 0 hero_world)) =
       trace hero_world @ [ComponentFinalize 0, OnEntityRemoved 0 0]"
  by (simp add: hero_world_eq ecs_defs insort_insert_key_def)

text \<open>
  C4. For a live entity \<open>E\<close>, \<^verbatim>\<open>DestroyEntity(E)\<close> puts \<open>E\<close> into the pending set and
  changes no other part of the state; \<^verbatim>\<open>HasComponent<T>(E)\<close>, \<^verbatim>\<open>GetComponent<T>(E)\<close> and
  \<^verbatim>\<open>GetComponentMask(E)\<close> answer as before; a second \<^verbatim>\<open>DestroyEntity(E)\<close> changes
  nothing; and after \<^verbatim>\<open>ProcessDestructions\<close>, \<^verbatim>\<open>GetComponentMask(E)\<close> throws for the
  unknown identifier.
\<close>

theorem destroy_is_deferred:
  assumes live: "GetComponentMask E s = Inr m"
  shows "set (m_entitiesToDestroy (DestroyEntity E s)) = insert E (set (m_entitiesToDestroy s))
       \<and> (DestroyEntity E s)\<lparr>m_entitiesToDestroy := m_entitiesToDestroy s\<rparr> = s
       \<and> fst (HasComponent T E (DestroyEntity E s)) = fst (HasComponent T E s)
       \<and> fst (GetComponent T E (DestroyEntity E s)) = fst (GetComponent T E s)
       \<and> GetComponentMask E (DestroyEntity E s) = Inr m
       \<and> DestroyEntity E (DestroyEntity E s) = DestroyEntity E s
       \<and> GetComponentMask E (ProcessDestructions (DestroyEntity E s)) = Inl map_out_of_range"
proof -
  have pending: "E \<in> set (m_entitiesToDestroy (DestroyEntity E s))"
    by (simp add: DestroyEntity_def set_insort_insert)
  have twice: "DestroyEntity E (DestroyEntity E s) = DestroyEntity E s"
    by (simp add: DestroyEntity_def set_insort_insert insort_insert_triv)
  have g: "GetComponentTypeID T (DestroyEntity E s) =
      (fst (GetComponentTypeID T s), DestroyEntity E (snd (GetComponentTypeID T s)))"
    by (simp add: GetComponentTypeID_def DestroyEntity_def split: option.splits)
  have frame: "m_entityMasks (DestroyEntity E (snd (GetComponentTypeID T s))) =
      m_entityMasks (snd (GetComponentTypeID T s))"
    "m_entityComponents (DestroyEntity E (snd (GetComponentTypeID T s))) =
      m_entityComponents (snd (GetComponentTypeID T s))"
    by (simp_all add: DestroyEntity_def)
  have has: "fst (HasComponent T E (DestroyEntity E s)) = fst (HasComponent T E s)"
    by (simp add: HasComponent_def split_beta g frame split: sum.splits)
  have get: "fst (GetComponent T E (DestroyEntity E s)) = fst (GetComponent T E s)"
    by (simp add: GetComponent_def split_beta g frame split: sum.splits)
  show ?thesis
    using live has get twice ProcessDestructions_mask [OF pending]
    by (simp add: DestroyEntity_def set_insort_insert GetComponentMask_def)
qed

theorem destroy_is_deferred_witness:
  "GetComponentMask 0 hero_world = Inr 1
   \<and> fst (HasComponent ''HeroComponent'' 0 (DestroyEntity 0 hero_world)) = Inr True
   \<and> fst (GetComponent ''HeroComponent'' 0 (DestroyEntity 0 hero_world)) = Inr (Some 0)
   \<and> GetComponentMask 0 (DestroyEntity 0 hero_world) = Inr 1
   \<and> DestroyEntity 0 (DestroyEntity 0 hero_world) = DestroyEntity 0 hero_world
   \<and> GetComponentMask 0 (ProcessDestructions (DestroyEntity 0 hero_world)) = Inl map_out_of_range"
proof -
  have live: "GetComponentMask 0 hero_world = Inr 1"
    by (simp add: hero_world_eq GetComponentMask_def um_at_def)
  have has: "fst (HasComponent ''HeroComponent'' 0 hero_world) = Inr True"
    by (simp add: hero_world_eq ecs_defs)
  have get: "fst (GetComponent ''HeroComponent'' 0 hero_world) = Inr (Some 0)"
    by (simp add: hero_world_eq ecs_defs)
  from destroy_is_deferred [OF live, of "''HeroComponent''"] live has get
  show ?thesis by simp
qed

text \<open>
  C5 on the code. Neither half holds. \<^verbatim>\<open>DestroyEntity\<close> does not ask whether the
  identifier is live, and the flush pushes every pending identifier to the pool. After
  create, destroy and flush, a second destroy of identifier 0 through the stale handle
  and a second flush leave 0 in the pool twice: the next \<^verbatim>\<open>CreateEntity\<close> returns 0 and
  makes it live, and the one after returns 0 again while it is live. And
  \<^verbatim>\<open>MAX_ENTITIES\<close>, declared as the maximum number of entities, is never read: after 10001
  calls of \<^verbatim>\<open>CreateEntity\<close> on a new manager, 10001 identifiers are live.
\<close>

theorem create_returns_live_id_and_exceeds_MAX_ENTITIES:
  "m_availableEntityIDs
     (fold (step slot_front) [Create, Destroy 0, Flush, Destroy 0, Flush] EntityManager_ctor)
     = [0, 0]
   \<and> fst (CreateEntity slot_front
       (fold (step slot_front) [Create, Destroy 0, Flush, Destroy 0, Flush] EntityManager_ctor))
     = 0
   \<and> live
       (fold (step slot_front) [Create, Destroy 0, Flush, Destroy 0, Flush, Create]
          EntityManager_ctor)
     = {0}
   \<and> fst (CreateEntity slot_front
       (fold (step slot_front) [Create, Destroy 0, Flush, Destroy 0, Flush, Create]
          EntityManager_ctor))
     = 0
   \<and> MAX_ENTITIES
       < card (live (fold (step slot_front) (replicate 10001 Create) EntityManager_ctor))"
proof -
  have pool: "m_availableEntityIDs
      (fold (step slot_front) [Create, Destroy 0, Flush, Destroy 0, Flush] EntityManager_ctor)
      = [0, 0]"
    by (simp add: ecs_defs insort_insert_key_def)
  have first: "fst (CreateEntity slot_front
      (fold (step slot_front) [Create, Destroy 0, Flush, Destroy 0, Flush] EntityManager_ctor))
      = 0"
    by (simp add: ecs_defs insort_insert_key_def)
  have alive: "live
      (fold (step slot_front) [Create, Destroy 0, Flush, Destroy 0, Flush, Create]
         EntityManager_ctor)
      = {0}"
    by (simp add: ecs_defs live_def insort_insert_key_def)
  have again: "fst (CreateEntity slot_front
      (fold (step slot_front) [Create, Destroy 0, Flush, Destroy 0, Flush, Create]
         EntityManager_ctor))
      = 0"
    by (simp add: ecs_defs insort_insert_key_def)
  have "card (live (fold (step slot_front) (replicate 10001 Create) EntityManager_ctor)) = 10001"
    using create_many [of slot_front 10001] card_word_of_nat [of 10001] by simp
  then have "MAX_ENTITIES
      < card (live (fold (step slot_front) (replicate 10001 Create) EntityManager_ctor))"
    by (simp add: MAX_ENTITIES_def)
  with pool first alive again show ?thesis by simp
qed

text \<open>
  C6 on the code. On a new manager the identifier 7 is unknown: \<^verbatim>\<open>GetComponentMask\<close>,
  \<^verbatim>\<open>HasComponent\<close> and \<^verbatim>\<open>GetComponent\<close> throw. \<^verbatim>\<open>AddComponent\<close> and
  \<^verbatim>\<open>RemoveComponent\<close> return normally and leave the identifier with a mask.
\<close>

theorem attach_and_detach_accept_unknown_entity:
  "GetComponentMask 7 EntityManager_ctor = Inl map_out_of_range
   \<and> fst (HasComponent ''HeroComponent'' 7 EntityManager_ctor) = Inl map_out_of_range
   \<and> fst (GetComponent ''HeroComponent'' 7 EntityManager_ctor) = Inl map_out_of_range
   \<and> fst (AddComponent slot_front ''HeroComponent'' 7 EntityManager_ctor) = Inr 0
   \<and> GetComponentMask 7 (snd (AddComponent slot_front ''HeroComponent'' 7 EntityManager_ctor))
       = Inr 1
   \<and> fst (RemoveComponent slot_front ''HeroComponent'' 7 EntityManager_ctor) = Inr ()
   \<and> GetComponentMask 7 (snd (RemoveComponent slot_front ''HeroComponent'' 7 EntityManager_ctor))
       = Inr 0"
  by (simp add: ecs_defs)




text \<open>
  C8, as stated, fails: the systems are visited in the iteration order of
  \<^verbatim>\<open>m_systems\<close>, a \<^verbatim>\<open>std::unordered_map\<close>, and nothing in the code records the order of
  registration. In a table that links a new entry in front, \<^verbatim>\<open>SystemA\<close>
  (identifier 0) is registered and initialised before \<^verbatim>\<open>SystemB\<close> (identifier 1),
  and \<^verbatim>\<open>UpdateSystems\<close> calls \<^verbatim>\<open>SystemB\<close> first.
\<close>

theorem update_order_is_not_registration_order:
  "trace two_systems = [SystemInitialize 0, SystemInitialize 1]
   \<and> trace (UpdateSystems 16 two_systems) =
       [SystemInitialize 0, SystemInitialize 1, SystemUpdate 1 16, SystemUpdate 0 16]"
  by (simp add: two_systems_eq UpdateSystems_def)

text \<open>
  C8, amended. \<^verbatim>\<open>UpdateSystems(deltaTime)\<close> calls \<^verbatim>\<open>Update(deltaTime)\<close> once on every
  active system of the table and on no inactive one, in the iteration order of the
  table, and changes nothing else; \<^verbatim>\<open>RenderSystems\<close> does the same with \<^verbatim>\<open>Render\<close>.
\<close>

theorem update_visits_active_systems_in_table_order:
  "trace (UpdateSystems deltaTime s) =
     trace s @ map (\<lambda>p. SystemUpdate (m_id (snd p)) deltaTime)
                (filter (\<lambda>p. m_active (snd p)) (m_systems s))
   \<and> (UpdateSystems deltaTime s)\<lparr>trace := trace s\<rparr> = s
   \<and> trace (RenderSystems s) =
     trace s @ map (\<lambda>p. SystemRender (m_id (snd p)))
                (filter (\<lambda>p. m_active (snd p)) (m_systems s))
   \<and> (RenderSystems s)\<lparr>trace := trace s\<rparr> = s"
proof -
  have "concat (map (\<lambda>p. if m_active (snd p) then [f p] else []) t) =
      map f (filter (\<lambda>p. m_active (snd p)) t)" for f :: "SystemID \<times> System \<Rightarrow> event" and t
    by (induction t) simp_all
  then show ?thesis
    by (simp add: UpdateSystems_def RenderSystems_def)
qed

text \<open>
  C9 on the code. The hero is subscribed to \<^verbatim>\<open>HeroSystem\<close> (identifier 0), whose
  \<^verbatim>\<open>OnEntityAdded\<close> has been called once. Attaching \<^verbatim>\<open>AbilitySlot\<close> calls it a second
  time; the subscriber set of \<^verbatim>\<open>HeroSystem\<close> is as before.
\<close>

theorem attach_to_subscribed_entity_fires_added_again:
  "trace hero_world =
     [SystemInitialize 0, SystemInitialize 1, ComponentInitialize 0, OnEntityAdded 0 0]
   \<and> map_of (m_systems hero_world) 0 =
       Some \<lparr>m_componentMask = 1, m_entities = {0}, m_id = 0, m_active = True\<rparr>
   \<and> trace (snd (AddComponent slot_front ''AbilitySlot'' 0 hero_world)) =
       trace hero_world @ [ComponentInitialize 1, OnEntityAdded 1 0, OnEntityAdded 0 0]
   \<and> map_of (m_systems (snd (AddComponent slot_front ''AbilitySlot'' 0 hero_world))) 0 =
       Some \<lparr>m_componentMask = 1, m_entities = {0}, m_id = 0, m_active = True\<rparr>"
  by (simp add: hero_world_eq ecs_defs)

text \<open>
  C10. \<^verbatim>\<open>System::RemoveEntity\<close> calls \<^verbatim>\<open>OnEntityRemoved\<close> exactly when the entity was in
  the subscriber set. Hence the hook calls of a flush are those of the pending entities
  on the systems that held them at that moment, and the hook calls of a
  \<^verbatim>\<open>RemoveComponent<T>(E)\<close> are for \<open>E\<close> on systems that held \<open>E\<close>; in both no call is
  made twice. Systems are told apart by \<^verbatim>\<open>m_id\<close>, and the pending set, a \<^verbatim>\<open>std::set\<close>,
  has no duplicates.
\<close>

theorem removed_hook_only_for_subscribers:
  assumes ids: "distinct (map (\<lambda>p. m_id (snd p)) (m_systems s))"
    and pending: "distinct (m_entitiesToDestroy s)"
  shows "snd (RemoveEntity E sys) =
           (if E \<in> m_entities sys then [OnEntityRemoved (m_id sys) E] else [])
       \<and> (\<exists>evs. trace (ProcessDestructions s) = trace s @ evs
             \<and> (\<forall>sid E'. OnEntityRemoved sid E' \<in> set evs \<longleftrightarrow>
                   E' \<in> set (m_entitiesToDestroy s)
                   \<and> (\<exists>p \<in> set (m_systems s). m_id (snd p) = sid \<and> E' \<in> m_entities (snd p)))
             \<and> distinct evs)
       \<and> (\<exists>evs. trace (snd (RemoveComponent slot T E s)) = trace s @ evs
             \<and> (\<forall>sid E'. OnEntityRemoved sid E' \<in> set evs \<longrightarrow>
                   E' = E
                   \<and> (\<exists>p \<in> set (m_systems s). m_id (snd p) = sid \<and> E \<in> m_entities (snd p)))
             \<and> distinct evs)"
proof -
  let ?flush = "concat (map (\<lambda>e. removed_hooks e (m_systems s)) (m_entitiesToDestroy s))"
  have "trace (ProcessDestructions s) = trace s @ ?flush"
    using pending by (simp add: ProcessDestructions_def fold_destroy_pending_trace)
  moreover have "OnEntityRemoved sid E' \<in> set ?flush \<longleftrightarrow>
      E' \<in> set (m_entitiesToDestroy s)
      \<and> (\<exists>p \<in> set (m_systems s). m_id (snd p) = sid \<and> E' \<in> m_entities (snd p))" for sid E'
    by (auto simp: removed_hook_iff)
  moreover have "distinct ?flush"
    using ids pending by (rule distinct_flush_hooks)
  ultimately have flush: "\<exists>evs. trace (ProcessDestructions s) = trace s @ evs
      \<and> (\<forall>sid E'. OnEntityRemoved sid E' \<in> set evs \<longleftrightarrow>
            E' \<in> set (m_entitiesToDestroy s)
            \<and> (\<exists>p \<in> set (m_systems s). m_id (snd p) = sid \<and> E' \<in> m_entities (snd p)))
      \<and> distinct evs"
    by blast
  obtain evs where evs: "trace (snd (RemoveComponent slot T E s)) = trace s @ evs"
    and shape: "evs = [] \<or> (\<exists>c P. evs = ComponentFinalize c # removed_hooks E (filter P (m_systems s)))"
    using RemoveComponent_trace by blast
  have "distinct (removed_hooks E (filter P (m_systems s)))" for P
    using ids by (intro distinct_removed_hooks distinct_map_filter)
  with shape have "distinct evs"
    by (auto simp: set_removed_hooks)
  moreover from shape have "E' = E
      \<and> (\<exists>p \<in> set (m_systems s). m_id (snd p) = sid \<and> E \<in> m_entities (snd p))"
    if "OnEntityRemoved sid E' \<in> set evs" for sid E'
    using that by (force simp: removed_hook_iff)
  ultimately have detach: "\<exists>evs. trace (snd (RemoveComponent slot T E s)) = trace s @ evs
      \<and> (\<forall>sid E'. OnEntityRemoved sid E' \<in> set evs \<longrightarrow>
            E' = E
            \<and> (\<exists>p \<in> set (m_systems s). m_id (snd p) = sid \<and> E \<in> m_entities (snd p)))
      \<and> distinct evs"
    using evs by blast
  from flush detach show ?thesis
    by (simp add: RemoveEntity_snd)
qed

theorem removed_hook_only_for_subscribers_witness:
  "distinct (map (\<lambda>p. m_id (snd p)) (m_systems (DestroyEntity 0 hero_world)))
   \<and> distinct (m_entitiesToDestroy (DestroyEntity 0 hero_world))
   \<and> (\<exists>evs. trace (ProcessDestructions (DestroyEntity 0 hero_world)) =
               trace (DestroyEntity 0 hero_world) @ evs
          \<and> OnEntityRemoved 0 0 \<in> set evs \<and> OnEntityRemoved 1 0 \<notin> set evs \<and> distinct evs)"
proof -
  let ?w = "DestroyEntity 0 hero_world"
  have ids: "distinct (map (\<lambda>p. m_id (snd p)) (m_systems ?w))"
    by (simp add: hero_world_eq DestroyEntity_def)
  have pending: "distinct (m_entitiesToDestroy ?w)"
    by (simp add: hero_world_eq DestroyEntity_def insort_insert_key_def)
  from removed_hook_only_for_subscribers [OF ids pending]
  obtain evs where tr: "trace (ProcessDestructions ?w) = trace ?w @ evs"
    and mem: "\<And>sid E'. OnEntityRemoved sid E' \<in> set evs \<longleftrightarrow>
        E' \<in> set (m_entitiesToDestroy ?w)
        \<and> (\<exists>p \<in> set (m_systems ?w). m_id (snd p) = sid \<and> E' \<in> m_entities (snd p))"
    and d: "distinct evs"
    by blast
  have "OnEntityRemoved 0 0 \<in> set evs"
    by (simp add: mem) (simp add: hero_world_eq DestroyEntity_def insort_insert_key_def)
  moreover have "OnEntityRemoved 1 0 \<notin> set evs"
    by (simp add: mem) (simp add: hero_world_eq DestroyEntity_def insort_insert_key_def)
  ultimately show ?thesis using ids pending tr d by blast
qed

end
